(* ===== verification/Prelude.thy ===== *)
theory Prelude
  imports Complex_Main "HOL-Library.Word" "HOL-Library.Multiset"
begin

text \<open>
  Shared vocabulary of the development: the names of the model's types, the C++
  exceptions the core can raise, 32-bit \<open>int\<close> arithmetic as the C++ code performs it,
  and the generic lemmas on lists and options that the component theories use.
  The collection \<open>arena_simps\<close> gathers the equations of the heap model
  (theory \<open>Chain\<close>); \<open>model_simps\<close> gathers the evaluation equations of the component
  operations, so that witnesses and component proofs can say \<open>simp add: model_simps\<close>.
\<close>

named_theorems arena_simps "equations of the node arena: dereference after allocation and update"
named_theorems model_simps "evaluation equations of the component operations"

type_synonym addr = nat

text \<open>
  The exceptions of the core. \<open>Runtime_error\<close> is \<^verbatim>\<open>std::runtime_error\<close> (thrown by
  \<^verbatim>\<open>VolunteerQueue::dequeue\<close>), \<open>Out_of_range\<close> is \<^verbatim>\<open>std::out_of_range\<close> (thrown by
  \<^verbatim>\<open>CustomLinkedList::operator[]\<close>; it is a \<^verbatim>\<open>std::logic_error\<close>, not a
  \<^verbatim>\<open>runtime_error\<close>). \<open>Null_deref\<close> marks a dereference of a null or freed pointer,
  which is undefined behaviour in C++; the theorems show that no well-formed state reaches it.
  \<open>Indeterminate_value\<close> marks a read of an uninitialised \<open>int\<close> (also undefined
  behaviour), which the shell performs when console input fails before its first value.
\<close>

datatype exn = Runtime_error string | Out_of_range string | Null_deref | Indeterminate_value

subsection \<open>32-bit \<open>int\<close>\<close>

text \<open>
  C++ \<open>int\<close> is 32 bits wide on the targets of this program. Values are read from the
  data files with \<^verbatim>\<open>std::stoi\<close>, which rejects anything outside that range, so every
  stored count is an \<open>int32\<close>. Signed overflow is undefined in C++; where the code can
  overflow, the model takes the two's-complement wrap \<open>wrap32\<close>, what unoptimised code
  on the usual targets does, so a result that depends on it describes that behaviour and
  not a guarantee of the language.
\<close>

definition int32_min :: int where "int32_min = - (2 ^ 31)"
definition int32_max :: int where "int32_max = 2 ^ 31 - 1"

definition is_int32 :: "int \<Rightarrow> bool" where
  "is_int32 x \<longleftrightarrow> int32_min \<le> x \<and> x \<le> int32_max"

definition wrap32 :: "int \<Rightarrow> int" where
  "wrap32 x = (x + 2 ^ 31) mod 2 ^ 32 - 2 ^ 31"

text \<open>\<open>last_opt\<close> is where a tail pointer must point for a chain with the given addresses.\<close>

fun last_opt :: "'a list \<Rightarrow> 'a option" where
  "last_opt [] = None"
| "last_opt xs = Some (last xs)"

subsection \<open>Lemmas on 32-bit values\<close>

lemma wrap32_sint: "wrap32 x = sint (word_of_int x :: 32 word)"
  by (simp add: wrap32_def int_word_sint)

lemma wrap32_id [simp]: "is_int32 x \<Longrightarrow> wrap32 x = x"
  by (simp add: wrap32_def is_int32_def int32_min_def int32_max_def)

lemma is_int32_wrap32: "is_int32 (wrap32 x)"
  by (simp add: wrap32_def is_int32_def int32_min_def int32_max_def)

subsection \<open>Lists and options\<close>

lemma last_opt_None_iff [simp]: "last_opt xs = None \<longleftrightarrow> xs = []"
  by (cases xs) auto

lemma last_opt_Some: "xs \<noteq> [] \<Longrightarrow> last_opt xs = Some (last xs)"
  by (cases xs) auto

lemma last_opt_snoc [simp]: "last_opt (xs @ [x]) = Some x"
  by (simp add: last_opt_Some)

lemma last_opt_Cons_Cons [simp]: "last_opt (x # y # ys) = last_opt (y # ys)"
  by simp

lemma find_map_option: "find P (map f xs) = map_option f (find (P \<circ> f) xs)"
  by (induction xs) auto

lemma find_cong_set: "(\<And>x. x \<in> set xs \<Longrightarrow> P x = Q x) \<Longrightarrow> find P xs = find Q xs"
  by (induction xs) auto

lemma rev_upt_map: "rev [0..<n] = map (\<lambda>j. n - Suc j) [0..<n]"
  by (rule nth_equalityI) (auto simp: rev_nth)

lemma distinct_bounded_length: "distinct xs \<Longrightarrow> set xs \<subseteq> {..<n} \<Longrightarrow> length xs \<le> n"
  by (metis card_lessThan card_mono distinct_card finite_lessThan)

lemma foldl_snoc_map: "foldl (\<lambda>xs x. xs @ [f x]) ys zs = ys @ map f zs"
  by (induction zs arbitrary: ys) auto


lemma foldl_snoc_id: "foldl (\<lambda>acc x. acc @ [x]) ys xs = ys @ xs"
  by (induction xs arbitrary: ys) auto

lemma in_set_map_filter: "y \<in> set (List.map_filter f xs) \<longleftrightarrow> (\<exists>x\<in>set xs. f x = Some y)"
  by (induction xs) (auto simp: map_filter_simps split: option.splits)

lemma map_filter_append: "List.map_filter f (xs @ ys) = List.map_filter f xs @ List.map_filter f ys"
  by (induction xs) (auto simp: map_filter_simps split: option.splits)

lemma map_filter_map_inverse: "(\<And>x. x \<in> set xs \<Longrightarrow> f (g x) = Some x) \<Longrightarrow> List.map_filter f (map g xs) = xs"
  by (induction xs) (simp_all add: map_filter_simps)

lemma set_dropWhile_subset: "set (dropWhile P xs) \<subseteq> set xs"
  by (auto dest: set_dropWhileD)

lemma sum_list_map_update:
  "i < length xs \<Longrightarrow> sum_list (map f (xs[i := y])) = sum_list (map f xs) - f (xs ! i) + (f y :: int)"
  by (induction xs arbitrary: i) (auto split: nat.splits)

lemma sum_list_pos: "\<forall>x\<in>set xs. 0 \<le> f x \<Longrightarrow> 0 < sum_list (map f xs) \<Longrightarrow> \<exists>x\<in>set xs. 0 < (f x :: int)"
proof (induction xs)
  case (Cons a xs)
  show ?case
  proof (cases "0 < f a")
    case False
    with Cons.prems have "0 < sum_list (map f xs)" by simp
    with Cons.IH Cons.prems show ?thesis by auto
  qed simp
qed simp

end
