(* ===== verification/Chain.thy ===== *)
theory Chain
  imports Prelude
begin

text \<open>
  The heap of the two hand-written linked structures of the program,
  \<^verbatim>\<open>CustomLinkedList<T>\<close> (\<^verbatim>\<open>include/CustomLists.hpp\<close>, nodes \<^verbatim>\<open>ListNode<T>\<close>) and
  \<^verbatim>\<open>VolunteerQueue\<close> (\<^verbatim>\<open>include/VolunteerQueue.hpp\<close>, nodes \<^verbatim>\<open>Node\<close>). Both nodes
  are a payload \<^verbatim>\<open>data\<close> and a pointer \<^verbatim>\<open>next\<close>, so both are \<open>'a node\<close> here.
  A structure owns its nodes, so each structure keeps its own arena: a list of slots,
  the address of a node is its slot index, \<^verbatim>\<open>new\<close> appends a slot (\<open>alloc\<close>) and
  \<^verbatim>\<open>delete\<close> empties one (\<open>free_node\<close>). Addresses are never reused, so a freed
  address is a dangling pointer, and dereferencing it (\<open>deref\<close>) yields \<open>None\<close> as
  dereferencing the null pointer does.

  The pointer-chasing loop \<^verbatim>\<open>while (current != nullptr) current = current->next\<close> is
  \<open>walk\<close>, with fuel, since on a corrupted (cyclic) chain it would not stop. With the
  arena's length as fuel it always reaches the end of a null-terminated chain
  (\<open>chain_iff_path\<close>): such a chain visits distinct addresses of the arena. The
  relational \<open>path\<close> is the proof-side view of the same chain, after the heap
  abstraction of Mehta and Nipkow.

  The generic loops of the code over a chain are \<open>iter_fold\<close> (a \<^verbatim>\<open>for\<close> loop over an
  iterator that reads \<^verbatim>\<open>*it\<close>) and \<open>find_addr\<close> (the same loop with an early
  \<^verbatim>\<open>return\<close>); \<open>iter_fold_chain\<close> and \<open>find_addr_chain\<close> say that on a chain they are
  \<open>foldl\<close> and \<open>find\<close> over the values in chain order.
\<close>

record 'a node =
  data :: 'a
  nxt :: "addr option"

type_synonym 'a arena = "'a node option list"

definition deref :: "'a arena \<Rightarrow> addr \<Rightarrow> 'a node option" where
  "deref ar p = (if p < length ar then ar ! p else None)"

definition alloc :: "'a arena \<Rightarrow> 'a \<Rightarrow> 'a arena \<times> addr" where
  "alloc ar v = (ar @ [Some \<lparr>data = v, nxt = None\<rparr>], length ar)"

definition set_nxt :: "'a arena \<Rightarrow> addr \<Rightarrow> addr option \<Rightarrow> 'a arena" where
  "set_nxt ar p q = (case deref ar p of None \<Rightarrow> ar | Some n \<Rightarrow> ar[p := Some (n\<lparr>nxt := q\<rparr>)])"

definition map_data :: "'a arena \<Rightarrow> addr \<Rightarrow> ('a \<Rightarrow> 'a) \<Rightarrow> 'a arena" where
  "map_data ar p f = (case deref ar p of None \<Rightarrow> ar | Some n \<Rightarrow> ar[p := Some (n\<lparr>data := f (data n)\<rparr>)])"

definition free_node :: "'a arena \<Rightarrow> addr \<Rightarrow> 'a arena" where
  "free_node ar p = ar[p := None]"

definition val_at :: "'a arena \<Rightarrow> addr \<Rightarrow> 'a" where
  "val_at ar p = data (the (deref ar p))"

definition vals :: "'a arena \<Rightarrow> addr list \<Rightarrow> 'a list" where
  "vals ar ps = map (val_at ar) ps"

definition live :: "'a arena \<Rightarrow> addr list" where
  "live ar = filter (\<lambda>i. ar ! i \<noteq> None) [0..<length ar]"

fun walk :: "'a arena \<Rightarrow> addr option \<Rightarrow> nat \<Rightarrow> addr list option" where
  "walk ar None n = Some []"
| "walk ar (Some p) 0 = None"
| "walk ar (Some p) (Suc n) =
     (case deref ar p of None \<Rightarrow> None | Some nd \<Rightarrow> map_option ((#) p) (walk ar (nxt nd) n))"

definition chain :: "'a arena \<Rightarrow> addr option \<Rightarrow> addr list option" where
  "chain ar p = walk ar p (length ar)"

primrec path :: "'a arena \<Rightarrow> addr option \<Rightarrow> addr list \<Rightarrow> addr option \<Rightarrow> bool" where
  "path ar p [] q \<longleftrightarrow> p = q"
| "path ar p (a # as) q \<longleftrightarrow>
     p = Some a \<and> (case deref ar a of None \<Rightarrow> False | Some n \<Rightarrow> path ar (nxt n) as q)"

fun iter_fold :: "('s \<Rightarrow> 'a \<Rightarrow> 's) \<Rightarrow> 'a arena \<Rightarrow> addr option \<Rightarrow> nat \<Rightarrow> 's \<Rightarrow> 's option" where
  "iter_fold f ar None n s = Some s"
| "iter_fold f ar (Some p) 0 s = None"
| "iter_fold f ar (Some p) (Suc n) s =
     (case deref ar p of None \<Rightarrow> None | Some nd \<Rightarrow> iter_fold f ar (nxt nd) n (f s (data nd)))"

fun find_addr :: "('a \<Rightarrow> bool) \<Rightarrow> 'a arena \<Rightarrow> addr option \<Rightarrow> nat \<Rightarrow> addr option option" where
  "find_addr P ar None n = Some None"
| "find_addr P ar (Some p) 0 = None"
| "find_addr P ar (Some p) (Suc n) =
     (case deref ar p of None \<Rightarrow> None
      | Some nd \<Rightarrow> if P (data nd) then Some (Some p) else find_addr P ar (nxt nd) n)"

text \<open>
  A chain from \<open>h\<close> is owned by a structure with tail pointer \<open>t\<close> when it ends in
  null, \<open>t\<close> points to its last node (null when it is empty), and the live slots of
  the arena are exactly its nodes: nothing leaked, nothing shared.
\<close>

definition owns :: "'a arena \<Rightarrow> addr option \<Rightarrow> addr option \<Rightarrow> addr list \<Rightarrow> bool" where
  "owns ar h t as \<longleftrightarrow> chain ar h = Some as \<and> t = last_opt as \<and> set (live ar) = set as"

subsection \<open>The arena\<close>

lemma deref_Some_less: "deref ar p = Some n \<Longrightarrow> p < length ar"
  by (simp add: deref_def split: if_splits)

lemma deref_append [arena_simps]:
  "deref (ar @ [x]) p = (if p = length ar then x else deref ar p)"
  by (auto simp: deref_def nth_append)

lemma deref_update [arena_simps]:
  "deref (ar[a := x]) p = (if p = a \<and> a < length ar then x else deref ar p)"
  by (auto simp: deref_def)

lemma length_set_nxt [simp]: "length (set_nxt ar a q) = length ar"
  by (simp add: set_nxt_def split: option.splits)

lemma length_map_data [simp]: "length (map_data ar a f) = length ar"
  by (simp add: map_data_def split: option.splits)

lemma length_free_node [simp]: "length (free_node ar a) = length ar"
  by (simp add: free_node_def)

lemma deref_set_nxt [arena_simps]:
  "deref (set_nxt ar a q) p =
     (if p = a then map_option (\<lambda>n. n\<lparr>nxt := q\<rparr>) (deref ar a) else deref ar p)"
  by (auto simp: set_nxt_def deref_update dest: deref_Some_less split: option.splits)

lemma deref_map_data [arena_simps]:
  "deref (map_data ar a f) p =
     (if p = a then map_option (\<lambda>n. n\<lparr>data := f (data n)\<rparr>) (deref ar a) else deref ar p)"
  by (auto simp: map_data_def deref_update dest: deref_Some_less split: option.splits)

lemma deref_free_node [arena_simps]:
  "deref (free_node ar a) p = (if p = a then None else deref ar p)"
  by (auto simp: free_node_def deref_update deref_def)

lemma val_at_append [arena_simps]: "p < length ar \<Longrightarrow> val_at (ar @ [x]) p = val_at ar p"
  by (simp add: val_at_def deref_append)

lemma val_at_set_nxt [arena_simps]: "val_at (set_nxt ar a q) p = val_at ar p"
  by (cases "deref ar a") (simp_all add: val_at_def deref_set_nxt)

lemma val_at_map_data [arena_simps]:
  "deref ar a \<noteq> None \<Longrightarrow>
     val_at (map_data ar a f) p = (if p = a then f (val_at ar a) else val_at ar p)"
  by (auto simp: val_at_def deref_map_data)

lemma val_at_append_new [arena_simps]: "val_at (ar @ [Some n]) (length ar) = data n"
  by (simp add: val_at_def deref_append)

lemma set_live: "set (live ar) = {i. deref ar i \<noteq> None}"
  by (auto simp: live_def deref_def split: if_splits)

lemma set_live_append [arena_simps]:
  "set (live (ar @ [Some n])) = insert (length ar) (set (live ar))"
  by (auto simp: set_live deref_append)

lemma set_live_set_nxt [arena_simps]: "set (live (set_nxt ar a q)) = set (live ar)"
  by (auto simp: set_live deref_set_nxt)

lemma set_live_map_data [arena_simps]: "set (live (map_data ar a f)) = set (live ar)"
  by (auto simp: set_live deref_map_data)

lemma set_live_free_node [arena_simps]: "set (live (free_node ar a)) = set (live ar) - {a}"
  by (auto simp: set_live deref_free_node)

subsection \<open>Paths\<close>

lemma path_None_start [simp]: "path ar None as q \<longleftrightarrow> as = [] \<and> q = None"
  by (cases as) auto

lemma path_append: "path ar p (as @ bs) q \<longleftrightarrow> (\<exists>r. path ar p as r \<and> path ar r bs q)"
  by (induction as arbitrary: p) (auto split: option.splits)

lemma path_unique: "path ar p as None \<Longrightarrow> path ar p bs None \<Longrightarrow> as = bs"
proof (induction as arbitrary: p bs)
  case Nil
  then show ?case by (cases bs) auto
next
  case (Cons a as)
  then show ?case by (cases bs) (auto split: option.splits)
qed

lemma path_bound: "path ar p as q \<Longrightarrow> a \<in> set as \<Longrightarrow> a < length ar"
  by (induction as arbitrary: p) (auto dest: deref_Some_less split: option.splits)

lemma path_deref: "path ar p as q \<Longrightarrow> a \<in> set as \<Longrightarrow> deref ar a \<noteq> None"
  by (induction as arbitrary: p) (auto split: option.splits)

lemma path_distinct: "path ar p as None \<Longrightarrow> distinct as"
proof (induction as arbitrary: p)
  case Nil
  then show ?case by simp
next
  case (Cons a as)
  from Cons.prems obtain n where n: "deref ar a = Some n" and rest: "path ar (nxt n) as None"
    by (auto split: option.splits)
  have "a \<notin> set as"
  proof
    assume "a \<in> set as"
    then obtain xs ys where as: "as = xs @ a # ys" by (auto simp: in_set_conv_decomp)
    with rest obtain r where "path ar (nxt n) xs r" and r: "path ar r (a # ys) None"
      by (auto simp: path_append)
    with n have "path ar (nxt n) ys None"
      using path_append [of ar "nxt n" xs "a # ys" None] rest as
      by (auto split: option.splits)
    with rest have "as = ys" by (rule path_unique)
    with as show False by simp
  qed
  with Cons.IH rest show ?case by simp
qed

lemma path_length: "path ar p as None \<Longrightarrow> length as \<le> length ar"
  by (rule distinct_bounded_length) (auto dest: path_distinct path_bound)

lemma walk_path: "walk ar p n = Some as \<longleftrightarrow> path ar p as None \<and> length as \<le> n"
proof (induction ar p n arbitrary: as rule: walk.induct)
  case (1 ar n)
  then show ?case by auto
next
  case (2 ar p)
  then show ?case by (cases as) auto
next
  case (3 ar p n)
  then show ?case by (cases as) (auto split: option.splits)
qed

lemma chain_iff_path: "chain ar p = Some as \<longleftrightarrow> path ar p as None"
  by (auto simp: chain_def walk_path dest: path_length)

lemma path_append_arena: "path ar p as q \<Longrightarrow> path (ar @ [x]) p as q"
  by (induction as arbitrary: p) (auto simp: deref_append dest: deref_Some_less split: option.splits)

lemma path_update_notin: "a \<notin> set as \<Longrightarrow> path (ar[a := x]) p as q = path ar p as q"
  by (induction as arbitrary: p) (auto simp: deref_update split: option.splits)

lemma path_set_nxt_notin: "a \<notin> set as \<Longrightarrow> path (set_nxt ar a r) p as q = path ar p as q"
  by (induction as arbitrary: p) (auto simp: deref_set_nxt split: option.splits)

lemma path_free_notin: "a \<notin> set as \<Longrightarrow> path (free_node ar a) p as q = path ar p as q"
  by (induction as arbitrary: p) (auto simp: deref_free_node split: option.splits)

lemma path_map_data [simp]: "path (map_data ar a f) p as q = path ar p as q"
  by (induction as arbitrary: p) (auto simp: deref_map_data split: option.splits)

subsection \<open>Values along a chain\<close>

lemma vals_Nil [simp]: "vals ar [] = []"
  by (simp add: vals_def)

lemma vals_Cons [simp]: "vals ar (a # as) = val_at ar a # vals ar as"
  by (simp add: vals_def)

lemma vals_append [simp]: "vals ar (as @ bs) = vals ar as @ vals ar bs"
  by (simp add: vals_def)

lemma vals_eq_Nil [simp]: "vals ar as = [] \<longleftrightarrow> as = []"
  by (simp add: vals_def)

lemma length_vals [simp]: "length (vals ar as) = length as"
  by (simp add: vals_def)

lemma vals_append_arena: "path ar p as q \<Longrightarrow> vals (ar @ [x]) as = vals ar as"
  by (auto simp: vals_def val_at_append dest: path_bound)

lemma vals_set_nxt [simp]: "vals (set_nxt ar a q) as = vals ar as"
  by (simp add: vals_def val_at_set_nxt)

lemma vals_free_notin: "a \<notin> set as \<Longrightarrow> vals (free_node ar a) as = vals ar as"
  by (auto simp: vals_def val_at_def deref_free_node)

lemma vals_map_data:
  "path ar p as q \<Longrightarrow> distinct as \<Longrightarrow> i < length as \<Longrightarrow>
     vals (map_data ar (as ! i) f) as = (vals ar as)[i := f (vals ar as ! i)]"
  by (auto simp: vals_def val_at_map_data nth_eq_iff_index_eq path_deref intro!: nth_equalityI)

subsection \<open>Loops over a chain\<close>

lemma iter_fold_walk:
  "walk ar p n = Some as \<Longrightarrow> iter_fold f ar p n s = Some (foldl f s (vals ar as))"
proof (induction n arbitrary: p as s)
  case 0
  then show ?case by (cases p) auto
next
  case (Suc n)
  then show ?case by (cases p) (auto simp: val_at_def split: option.splits)
qed

lemma iter_fold_chain:
  "chain ar p = Some as \<Longrightarrow> iter_fold f ar p (length ar) s = Some (foldl f s (vals ar as))"
  by (simp add: chain_def iter_fold_walk)

lemma find_addr_walk:
  "walk ar p n = Some as \<Longrightarrow> find_addr P ar p n = Some (find (\<lambda>a. P (val_at ar a)) as)"
proof (induction n arbitrary: p as)
  case 0
  then show ?case by (cases p) auto
next
  case (Suc n)
  then show ?case by (cases p) (auto simp: val_at_def split: option.splits)
qed

lemma find_addr_chain:
  "chain ar p = Some as \<Longrightarrow> find_addr P ar p (length ar) = Some (find (\<lambda>a. P (val_at ar a)) as)"
  by (simp add: chain_def find_addr_walk)

subsection \<open>Linking and unlinking nodes of an owned chain\<close>

text \<open>
  The three pointer manipulations of the code: a new node linked after the tail
  (\<^verbatim>\<open>push_back\<close>, \<^verbatim>\<open>enqueue\<close>), a new node linked before the head
  (\<^verbatim>\<open>push_front\<close>), and the head node unlinked and deleted (\<^verbatim>\<open>dequeue\<close>, \<^verbatim>\<open>clear\<close>).
  Each keeps the ownership invariant and changes the address list as a list operation.
\<close>

lemma path_snoc_node:
  assumes "path ar h as None" and "as \<noteq> []"
  shows "path (set_nxt (ar @ [Some \<lparr>data = v, nxt = None\<rparr>]) (last as) (Some (length ar)))
           h (as @ [length ar]) None"
proof -
  let ?ar = "ar @ [Some \<lparr>data = v, nxt = None\<rparr>]"
  obtain bs t where as: "as = bs @ [t]" using assms(2) by (cases as rule: rev_cases) auto
  from assms(1) as obtain r where bs: "path ar h bs r" and tl: "path ar r [t] None"
    by (auto simp: path_append)
  from tl obtain n where r: "r = Some t" and n: "deref ar t = Some n"
    by (auto split: option.splits)
  from assms(1) as have "t \<notin> set bs" by (auto dest: path_distinct)
  moreover from bs have "path ?ar h bs r" by (rule path_append_arena)
  ultimately have "path (set_nxt ?ar t (Some (length ar))) h bs r"
    by (simp add: path_set_nxt_notin)
  moreover have "path (set_nxt ?ar t (Some (length ar))) r [t, length ar] None"
    using r n deref_Some_less [OF n] by (simp add: deref_set_nxt deref_append)
  ultimately show ?thesis using as by (auto simp: path_append)
qed

lemma owns_Nil: "owns ar None t as \<longleftrightarrow> as = [] \<and> t = None \<and> live ar = []"
  by (auto simp: owns_def chain_iff_path)

lemma owns_snoc_empty:
  assumes "owns ar None t as"
  shows "owns (ar @ [Some \<lparr>data = v, nxt = None\<rparr>]) (Some (length ar)) (Some (length ar))
           (as @ [length ar])"
  using assms by (simp add: owns_Nil owns_def chain_iff_path deref_append set_live_append)

lemma owns_snoc:
  assumes "owns ar h t as" and "h \<noteq> None"
  shows "owns (set_nxt (ar @ [Some \<lparr>data = v, nxt = None\<rparr>]) (the t) (Some (length ar))) h
           (Some (length ar)) (as @ [length ar])"
proof -
  from assms have p: "path ar h as None" and t: "t = last_opt as" and l: "set (live ar) = set as"
    by (auto simp: owns_def chain_iff_path)
  from p assms(2) have ne: "as \<noteq> []" by (cases as) auto
  with t have "the t = last as" by (simp add: last_opt_Some)
  with p ne show ?thesis using l
    by (simp add: owns_def chain_iff_path path_snoc_node set_live_set_nxt set_live_append)
qed

lemma vals_snoc_node:
  assumes "path ar h as None"
  shows "vals (set_nxt (ar @ [Some \<lparr>data = v, nxt = None\<rparr>]) t (Some (length ar))) (as @ [length ar])
           = vals ar as @ [v]"
  using assms by (simp add: vals_append_arena val_at_set_nxt val_at_append_new)

lemma owns_cons:
  assumes "owns ar h t as"
  shows "owns (set_nxt (ar @ [Some \<lparr>data = v, nxt = None\<rparr>]) (length ar) h) (Some (length ar))
           (if h = None then Some (length ar) else t) (length ar # as)"
proof -
  let ?ar = "ar @ [Some \<lparr>data = v, nxt = None\<rparr>]"
  from assms have p: "path ar h as None" and t: "t = last_opt as" and l: "set (live ar) = set as"
    by (auto simp: owns_def chain_iff_path)
  have "length ar \<notin> set as" using p by (auto dest: path_bound)
  with p have "path (set_nxt ?ar (length ar) h) h as None"
    by (simp add: path_set_nxt_notin path_append_arena)
  then have "path (set_nxt ?ar (length ar) h) (Some (length ar)) (length ar # as) None"
    by (simp add: deref_set_nxt deref_append)
  moreover have "(if h = None then Some (length ar) else t) = last_opt (length ar # as)"
    using p t by (cases as) auto
  ultimately show ?thesis using l
    by (simp add: owns_def chain_iff_path set_live_set_nxt set_live_append)
qed

lemma vals_cons_node:
  assumes "path ar h as None"
  shows "vals (set_nxt (ar @ [Some \<lparr>data = v, nxt = None\<rparr>]) (length ar) h) (length ar # as)
           = v # vals ar as"
  using assms by (simp add: vals_append_arena val_at_def deref_append deref_set_nxt)

lemma owns_pop:
  assumes "owns ar (Some a) t (b # as)" and "deref ar a = Some n"
  shows "a = b" and "owns (free_node ar a) (nxt n) (if nxt n = None then None else t) as"
    and "vals (free_node ar a) as = tl (vals ar (b # as))"
proof -
  from assms(1) have p: "path ar (Some a) (b # as) None" and t: "t = last_opt (b # as)"
    and l: "set (live ar) = set (b # as)"
    by (auto simp: owns_def chain_iff_path)
  from p show "a = b" by simp
  from p assms(2) have rest: "path ar (nxt n) as None" by simp
  from p have "distinct (b # as)" by (rule path_distinct)
  with \<open>a = b\<close> have "a \<notin> set as" by simp
  with rest have "path (free_node ar a) (nxt n) as None" by (simp add: path_free_notin)
  moreover have "(if nxt n = None then None else t) = last_opt as"
    using rest t by (cases as) auto
  moreover have "set (live (free_node ar a)) = set as"
    using l \<open>a \<notin> set as\<close> \<open>a = b\<close> by (auto simp: set_live_free_node)
  ultimately show "owns (free_node ar a) (nxt n) (if nxt n = None then None else t) as"
    by (simp add: owns_def chain_iff_path)
  from \<open>a \<notin> set as\<close> show "vals (free_node ar a) as = tl (vals ar (b # as))"
    by (simp add: vals_free_notin)
qed

lemma chain_map_data [simp]: "chain (map_data ar a f) p = chain ar p"
proof (cases "chain ar p")
  case None
  then have "\<not> path ar p as None" for as by (simp add: chain_iff_path[symmetric])
  then have "chain (map_data ar a f) p \<noteq> Some as" for as by (simp add: chain_iff_path)
  with None show ?thesis by (cases "chain (map_data ar a f) p") auto
next
  case (Some as)
  then show ?thesis
    using chain_iff_path [of "map_data ar a f" p as] chain_iff_path [of ar p as] by simp
qed

subsection \<open>Termination of the pointer walk\<close>

lemma cyclic_walk_diverges: "walk [Some \<lparr>data = x, nxt = Some 0\<rparr>] (Some 0) n = None"
  by (induction n) (simp_all add: deref_def)

text \<open>The fuel of the model is exact: a \<^verbatim>\<open>while (current != nullptr)\<close> or iterator
  loop started at \<open>p\<close> terminates after some number of steps, with visited nodes \<open>as\<close>,
  exactly when the walk with fuel \<open>length ar\<close> (\<open>chain\<close>) returns \<open>as\<close>; so \<open>chain\<close>
  returning \<open>None\<close> means the loop of the code does not terminate (a cycle or a dangling
  pointer, as in \<open>cyclic_walk_diverges\<close>), never that the fuel ran out early.\<close>

theorem walk_fuel_exact: "(\<exists>n. walk ar p n = Some as) \<longleftrightarrow> chain ar p = Some as"
  by (auto simp: walk_path chain_iff_path dest: path_length)

end
