(* ===== verification/LinkedList.thy ===== *)
theory LinkedList
  imports Chain
begin

text \<open>
  \<^verbatim>\<open>CustomLinkedList<T>\<close> of \<^verbatim>\<open>include/CustomLists.hpp\<close>: an owning singly-linked list
  with a head pointer, a tail pointer kept for O(1) \<^verbatim>\<open>push_back\<close>, and an incrementally
  maintained \<^verbatim>\<open>count\<close>. The object is the record \<open>clist\<close> with the node arena it owns.
  Every method is one definition: the constructor \<open>empty_clist\<close>, \<open>push_back\<close>,
  \<open>push_front\<close>, \<open>list_empty\<close> (\<^verbatim>\<open>empty()\<close>), \<open>list_size\<close> (\<^verbatim>\<open>size()\<close>), \<open>clear\<close>
  (with its deletion loop \<open>clear_loop\<close>), the copy constructor \<open>copy_clist\<close>, copy
  assignment \<open>assign\<close> (whose argument may be the object itself), the checked accessor
  \<open>index_ref\<close> (\<^verbatim>\<open>operator[]\<close>, a reference or \<^verbatim>\<open>std::out_of_range\<close>) and the
  pointer accessor \<open>at_ptr\<close> (\<^verbatim>\<open>at()\<close>, a pointer or null), both walking the chain with
  \<open>nth_addr\<close>. Iteration with \<^verbatim>\<open>begin()\<close>/\<^verbatim>\<open>end()\<close>/\<^verbatim>\<open>++\<close> is the chain loop of
  theory \<open>Chain\<close>.

  The invariant \<open>ll_inv\<close> says the head reaches null through the owned nodes, the tail
  is the last of them, the live slots of the arena are exactly the chain, and \<open>count\<close>
  is its length. The abstraction \<open>contents\<close> reads the payloads in chain order; every
  operation is proved to keep the invariant and to act on \<open>contents\<close> as the
  corresponding list operation.
\<close>

record 'a clist =
  nodes :: "'a arena"
  head :: "addr option"
  tail :: "addr option"
  count :: int

datatype 'a other_ref = Same_object | Other_object 'a

definition empty_clist :: "'a clist" where
  "empty_clist = \<lparr>nodes = [], head = None, tail = None, count = 0\<rparr>"

definition push_back :: "'a clist \<Rightarrow> 'a \<Rightarrow> 'a clist" where
  "push_back l v =
     (let (ar, a) = alloc (nodes l) v in
      if head l = None then l\<lparr>nodes := ar, head := Some a, tail := Some a, count := count l + 1\<rparr>
      else l\<lparr>nodes := (case tail l of None \<Rightarrow> ar | Some t \<Rightarrow> set_nxt ar t (Some a)),
             tail := Some a, count := count l + 1\<rparr>)"

definition push_front :: "'a clist \<Rightarrow> 'a \<Rightarrow> 'a clist" where
  "push_front l v =
     (let (ar, a) = alloc (nodes l) v in
      if head l = None then l\<lparr>nodes := ar, head := Some a, tail := Some a, count := count l + 1\<rparr>
      else l\<lparr>nodes := set_nxt ar a (head l), head := Some a, count := count l + 1\<rparr>)"

definition list_empty :: "'a clist \<Rightarrow> bool" where
  "list_empty l \<longleftrightarrow> head l = None"

definition list_size :: "'a clist \<Rightarrow> int" where
  "list_size l = count l"

fun clear_loop :: "'a arena \<Rightarrow> addr option \<Rightarrow> nat \<Rightarrow> 'a arena option" where
  "clear_loop ar None n = Some ar"
| "clear_loop ar (Some p) 0 = None"
| "clear_loop ar (Some p) (Suc n) =
     (case deref ar p of None \<Rightarrow> None | Some nd \<Rightarrow> clear_loop (free_node ar p) (nxt nd) n)"

definition clear :: "'a clist \<Rightarrow> 'a clist option" where
  "clear l =
     map_option (\<lambda>ar. l\<lparr>nodes := ar, head := None, tail := None, count := 0\<rparr>)
       (clear_loop (nodes l) (head l) (length (nodes l)))"

definition copy_clist :: "'a clist \<Rightarrow> 'a clist option" where
  "copy_clist other = iter_fold push_back (nodes other) (head other) (length (nodes other)) empty_clist"

definition assign :: "'a clist \<Rightarrow> 'a clist other_ref \<Rightarrow> 'a clist option" where
  "assign l other =
     (case other of
        Same_object \<Rightarrow> Some l
      | Other_object src \<Rightarrow>
          (case clear l of
             None \<Rightarrow> None
           | Some l' \<Rightarrow> iter_fold push_back (nodes src) (head src) (length (nodes src)) l'))"

primrec nth_addr :: "'a arena \<Rightarrow> addr option \<Rightarrow> nat \<Rightarrow> addr option" where
  "nth_addr ar p 0 = p"
| "nth_addr ar p (Suc i) =
     nth_addr ar (case p of None \<Rightarrow> None
                  | Some a \<Rightarrow> (case deref ar a of None \<Rightarrow> None | Some n \<Rightarrow> nxt n)) i"

definition index_ref :: "'a clist \<Rightarrow> int \<Rightarrow> exn + addr" where
  "index_ref l i =
     (if i < 0 \<or> i \<ge> count l then Inl (Out_of_range ''Index out of bounds'')
      else (case nth_addr (nodes l) (head l) (nat i) of
              None \<Rightarrow> Inl Null_deref
            | Some a \<Rightarrow> (case deref (nodes l) a of None \<Rightarrow> Inl Null_deref | Some _ \<Rightarrow> Inr a)))"

definition at_ptr :: "'a clist \<Rightarrow> int \<Rightarrow> addr option" where
  "at_ptr l i =
     (if i < 0 \<or> i \<ge> count l then None else nth_addr (nodes l) (head l) (nat i))"

text \<open>
  A write through the reference that \<^verbatim>\<open>operator[]\<close> returns, as in
  \<^verbatim>\<open>sites[bestSiteIndex].currentCount++\<close>: the exception propagates, otherwise the
  payload of the addressed node is replaced.
\<close>

definition index_modify :: "'a clist \<Rightarrow> int \<Rightarrow> ('a \<Rightarrow> 'a) \<Rightarrow> exn + 'a clist" where
  "index_modify l i f =
     (case index_ref l i of Inl e \<Rightarrow> Inl e | Inr a \<Rightarrow> Inr (l\<lparr>nodes := map_data (nodes l) a f\<rparr>))"

text \<open>The invariant and the abstraction.\<close>

definition ll_inv :: "'a clist \<Rightarrow> bool" where
  "ll_inv l \<longleftrightarrow>
     (case chain (nodes l) (head l) of
        None \<Rightarrow> False
      | Some as \<Rightarrow> tail l = last_opt as \<and> set (live (nodes l)) = set as \<and> count l = int (length as))"

definition contents :: "'a clist \<Rightarrow> 'a list" where
  "contents l = (case chain (nodes l) (head l) of None \<Rightarrow> [] | Some as \<Rightarrow> vals (nodes l) as)"

subsection \<open>Invariant and abstraction\<close>

lemma ll_inv_owns:
  "ll_inv l \<longleftrightarrow> (\<exists>as. owns (nodes l) (head l) (tail l) as \<and> count l = int (length as))"
  by (auto simp: ll_inv_def owns_def split: option.splits)

lemma contents_owns: "owns (nodes l) (head l) (tail l) as \<Longrightarrow> contents l = vals (nodes l) as"
  by (simp add: owns_def contents_def)

lemma ll_invE:
  assumes "ll_inv l"
  obtains as where "owns (nodes l) (head l) (tail l) as" and "count l = int (length as)"
    and "contents l = vals (nodes l) as"
  using assms by (auto simp: ll_inv_owns contents_owns)

lemma ll_invI:
  "owns (nodes l) (head l) (tail l) as \<Longrightarrow> count l = int (length as) \<Longrightarrow> ll_inv l"
  by (auto simp: ll_inv_owns)

lemma owns_empty_clist: "owns (nodes empty_clist) (head empty_clist) (tail empty_clist) []"
  by (simp add: empty_clist_def owns_def chain_def live_def)

subsection \<open>\<open>push_back\<close> and \<open>push_front\<close>\<close>

lemma push_back_owns:
  assumes "owns (nodes l) (head l) (tail l) as"
  shows "owns (nodes (push_back l v)) (head (push_back l v)) (tail (push_back l v))
           (as @ [length (nodes l)])"
    and "vals (nodes (push_back l v)) (as @ [length (nodes l)]) = vals (nodes l) as @ [v]"
    and "count (push_back l v) = count l + 1"
proof -
  have p: "path (nodes l) (head l) as None" using assms by (simp add: owns_def chain_iff_path)
  show "count (push_back l v) = count l + 1" by (simp add: push_back_def alloc_def)
  show "owns (nodes (push_back l v)) (head (push_back l v)) (tail (push_back l v))
           (as @ [length (nodes l)])"
  proof (cases "head l")
    case None
    with assms show ?thesis by (simp add: push_back_def alloc_def owns_snoc_empty)
  next
    case (Some h)
    then have False: "head l \<noteq> None" by simp
    from assms False have "as \<noteq> []" by (cases as) (auto simp: owns_def chain_iff_path)
    with assms have "tail l = Some (last as)" by (simp add: owns_def last_opt_Some)
    with Some show ?thesis
      using owns_snoc [OF assms False, of v] by (simp add: push_back_def alloc_def)
  qed
  show "vals (nodes (push_back l v)) (as @ [length (nodes l)]) = vals (nodes l) as @ [v]"
    using p by (cases "tail l") (simp_all add: push_back_def alloc_def vals_snoc_node
        vals_append_arena val_at_append_new val_at_set_nxt)
qed

lemma push_back_inv_contents:
  assumes "ll_inv l"
  shows "ll_inv (push_back l v)" and "contents (push_back l v) = contents l @ [v]"
proof -
  from assms obtain as where o: "owns (nodes l) (head l) (tail l) as"
    and c: "count l = int (length as)" and v: "contents l = vals (nodes l) as" by (rule ll_invE)
  show "ll_inv (push_back l v)"
    by (rule ll_invI [OF push_back_owns(1) [OF o]]) (simp add: push_back_owns(3) [OF o] c)
  show "contents (push_back l v) = contents l @ [v]"
    using contents_owns [OF push_back_owns(1) [OF o]] push_back_owns(2) [OF o] v by simp
qed

lemmas push_back_inv = push_back_inv_contents(1)
lemmas push_back_contents = push_back_inv_contents(2)

lemma push_front_owns:
  assumes "owns (nodes l) (head l) (tail l) as"
  shows "owns (nodes (push_front l v)) (head (push_front l v)) (tail (push_front l v))
           (length (nodes l) # as)"
    and "vals (nodes (push_front l v)) (length (nodes l) # as) = v # vals (nodes l) as"
    and "count (push_front l v) = count l + 1"
proof -
  have p: "path (nodes l) (head l) as None" using assms by (simp add: owns_def chain_iff_path)
  show "count (push_front l v) = count l + 1" by (simp add: push_front_def alloc_def)
  show "owns (nodes (push_front l v)) (head (push_front l v)) (tail (push_front l v))
           (length (nodes l) # as)"
  proof (cases "head l")
    case None
    with assms show ?thesis using owns_snoc_empty [of "nodes l" "tail l" as v]
      by (simp add: push_front_def alloc_def owns_Nil)
  next
    case (Some h)
    with owns_cons [OF assms, of v] show ?thesis by (simp add: push_front_def alloc_def)
  qed
  show "vals (nodes (push_front l v)) (length (nodes l) # as) = v # vals (nodes l) as"
    using p by (cases "head l = None")
      (simp_all add: push_front_def alloc_def vals_cons_node vals_append_arena val_at_append_new
        val_at_set_nxt)
qed

lemma push_front_inv_contents:
  assumes "ll_inv l"
  shows "ll_inv (push_front l v)" and "contents (push_front l v) = v # contents l"
proof -
  from assms obtain as where o: "owns (nodes l) (head l) (tail l) as"
    and c: "count l = int (length as)" and v: "contents l = vals (nodes l) as" by (rule ll_invE)
  show "ll_inv (push_front l v)"
    by (rule ll_invI [OF push_front_owns(1) [OF o]]) (simp add: push_front_owns(3) [OF o] c)
  show "contents (push_front l v) = v # contents l"
    using contents_owns [OF push_front_owns(1) [OF o]] push_front_owns(2) [OF o] v by simp
qed

lemmas push_front_inv = push_front_inv_contents(1)
lemmas push_front_contents = push_front_inv_contents(2)

lemma foldl_push_back:
  "ll_inv l \<Longrightarrow> ll_inv (foldl push_back l xs) \<and> contents (foldl push_back l xs) = contents l @ xs"
  by (induction xs arbitrary: l) (auto simp: push_back_inv push_back_contents)

subsection \<open>Walking to an index\<close>

lemma nth_addr_path:
  "path ar p as None \<Longrightarrow> i < length as \<Longrightarrow> nth_addr ar p i = Some (as ! i)"
proof (induction as arbitrary: p i)
  case Nil
  then show ?case by simp
next
  case (Cons a as)
  then show ?case by (cases i) (auto split: option.splits)
qed

lemma ll_inv_nth_addr:
  assumes "ll_inv l" and "0 \<le> i" and "i < int (length (contents l))"
  obtains a where "nth_addr (nodes l) (head l) (nat i) = Some a" and "deref (nodes l) a \<noteq> None"
    and "val_at (nodes l) a = contents l ! nat i"
    and "a \<in> set (the (chain (nodes l) (head l)))"
proof -
  from assms(1) obtain as where o: "owns (nodes l) (head l) (tail l) as"
    and c: "contents l = vals (nodes l) as" by (rule ll_invE)
  then have p: "path (nodes l) (head l) as None" by (simp add: owns_def chain_iff_path)
  from assms(2,3) c have i: "nat i < length as" by simp
  with p have "nth_addr (nodes l) (head l) (nat i) = Some (as ! nat i)" by (rule nth_addr_path)
  moreover have "deref (nodes l) (as ! nat i) \<noteq> None" using path_deref [OF p nth_mem [OF i]] .
  moreover have "val_at (nodes l) (as ! nat i) = contents l ! nat i" using c i by (simp add: vals_def)
  moreover have "as ! nat i \<in> set (the (chain (nodes l) (head l)))"
    using o i by (simp add: owns_def)
  ultimately show ?thesis by (rule that)
qed

subsection \<open>\<open>clear\<close>\<close>

lemma clear_loop_path:
  "path ar p as None \<Longrightarrow> length as \<le> n \<Longrightarrow> clear_loop ar p n = Some (foldl free_node ar as)"
proof (induction as arbitrary: ar p n)
  case Nil
  then show ?case by simp
next
  case (Cons a as)
  from Cons.prems obtain nd n' where p: "p = Some a" and nd: "deref ar a = Some nd"
    and rest: "path ar (nxt nd) as None" and n: "n = Suc n'" and len: "length as \<le> n'"
    by (cases n) (auto split: option.splits)
  have "distinct (a # as)" by (rule path_distinct [OF Cons.prems(1)])
  with rest have "path (free_node ar a) (nxt nd) as None" by (simp add: path_free_notin)
  from this len have "clear_loop (free_node ar a) (nxt nd) n' = Some (foldl free_node (free_node ar a) as)"
    by (rule Cons.IH)
  with p nd n show ?case by simp
qed

lemma set_live_foldl_free: "set (live (foldl free_node ar as)) = set (live ar) - set as"
  by (induction as arbitrary: ar) (auto simp: set_live_free_node)

lemma clear_some:
  assumes "ll_inv l"
  shows "\<exists>l'. clear l = Some l' \<and> ll_inv l' \<and> contents l' = [] \<and> live (nodes l') = []
           \<and> length (nodes l') = length (nodes l)"
proof -
  from assms obtain as where o: "owns (nodes l) (head l) (tail l) as" by (rule ll_invE)
  then have p: "path (nodes l) (head l) as None" and lv: "set (live (nodes l)) = set as"
    by (auto simp: owns_def chain_iff_path)
  let ?ar = "foldl free_node (nodes l) as"
  have "clear l = Some (l\<lparr>nodes := ?ar, head := None, tail := None, count := 0\<rparr>)"
    using clear_loop_path [OF p path_length [OF p]] by (simp add: clear_def)
  moreover have "live ?ar = []" using lv set_live_foldl_free [of "nodes l" as] by simp
  moreover have "length ?ar = length (nodes l)"
    by (induction as arbitrary: l rule: rev_induct) simp_all
  ultimately show ?thesis
    by (simp add: ll_inv_def contents_def chain_def)
qed

subsection \<open>Helper facts for the method theorems\<close>

lemma count_push_back [simp]: "count (push_back l v) = count l + 1"
  by (simp add: push_back_def alloc_def)

lemma count_push_front [simp]: "count (push_front l v) = count l + 1"
  by (simp add: push_front_def alloc_def)

lemma ll_inv_count: "ll_inv l \<Longrightarrow> count l = int (length (contents l))"
  by (auto elim!: ll_invE)

lemma ll_inv_empty_clist: "ll_inv empty_clist" and contents_empty_clist: "contents empty_clist = []"
  using owns_empty_clist by (auto intro: ll_invI simp: empty_clist_def contents_def chain_def)

lemma ll_inv_head:
  assumes "ll_inv l"
  shows "head l = None \<longleftrightarrow> contents l = []"
proof -
  from assms obtain as where o: "owns (nodes l) (head l) (tail l) as"
    and c: "contents l = vals (nodes l) as" by (rule ll_invE)
  then have "path (nodes l) (head l) as None" by (simp add: owns_def chain_iff_path)
  then have "head l = None \<longleftrightarrow> as = []" by (cases as) auto
  with c show ?thesis by simp
qed

lemma iter_fold_push_back:
  assumes "ll_inv src" and "ll_inv l"
  shows "\<exists>l'. iter_fold push_back (nodes src) (head src) (length (nodes src)) l = Some l'
           \<and> ll_inv l' \<and> contents l' = contents l @ contents src"
proof -
  from assms(1) obtain as where o: "owns (nodes src) (head src) (tail src) as"
    and c: "contents src = vals (nodes src) as" by (rule ll_invE)
  then have "iter_fold push_back (nodes src) (head src) (length (nodes src)) l
      = Some (foldl push_back l (contents src))"
    by (simp add: owns_def iter_fold_chain)
  with foldl_push_back [OF assms(2)] show ?thesis by blast
qed

lemma index_ref_in_range:
  assumes "ll_inv l" and "0 \<le> i" and "i < int (length (contents l))"
  shows "\<exists>a. index_ref l i = Inr a \<and> val_at (nodes l) a = contents l ! nat i
           \<and> chain (nodes l) (head l) = Some (the (chain (nodes l) (head l)))
           \<and> a = the (chain (nodes l) (head l)) ! nat i"
proof -
  from assms(1) obtain as where o: "owns (nodes l) (head l) (tail l) as"
    and c: "contents l = vals (nodes l) as" and n: "count l = int (length as)" by (rule ll_invE)
  then have p: "path (nodes l) (head l) as None" and ch: "chain (nodes l) (head l) = Some as"
    by (simp_all add: owns_def chain_iff_path)
  from assms(2,3) c have i: "nat i < length as" by simp
  have a: "nth_addr (nodes l) (head l) (nat i) = Some (as ! nat i)" by (rule nth_addr_path [OF p i])
  have "deref (nodes l) (as ! nat i) \<noteq> None" using path_deref [OF p nth_mem [OF i]] .
  with a assms(2,3) c n have "index_ref l i = Inr (as ! nat i)"
    by (auto simp: index_ref_def)
  moreover have "val_at (nodes l) (as ! nat i) = contents l ! nat i" using c i by (simp add: vals_def)
  ultimately show ?thesis using ch by simp
qed

lemma ll_inv_iter_fold:
  "ll_inv l \<Longrightarrow> iter_fold f (nodes l) (head l) (length (nodes l)) s = Some (foldl f s (contents l))"
  by (auto elim!: ll_invE simp: owns_def iter_fold_chain)

lemma index_modify_in_range:
  assumes "ll_inv l" and "0 \<le> i" and "i < int (length (contents l))"
  shows "\<exists>l'. index_modify l i f = Inr l' \<and> ll_inv l'
           \<and> contents l' = (contents l)[nat i := f (contents l ! nat i)]"
proof -
  from assms(1) obtain as where o: "owns (nodes l) (head l) (tail l) as"
    and c: "contents l = vals (nodes l) as" and n: "count l = int (length as)" by (rule ll_invE)
  then have p: "path (nodes l) (head l) as None" and ch: "chain (nodes l) (head l) = Some as"
    by (simp_all add: owns_def chain_iff_path)
  from assms(2,3) c have i: "nat i < length as" by simp
  from index_ref_in_range [OF assms] ch have r: "index_ref l i = Inr (as ! nat i)" by auto
  let ?l' = "l\<lparr>nodes := map_data (nodes l) (as ! nat i) f\<rparr>"
  have "owns (nodes ?l') (head ?l') (tail ?l') as"
    using o by (simp add: owns_def set_live_map_data)
  then have "ll_inv ?l'" using n by (auto intro: ll_invI)
  moreover have "contents ?l' = (contents l)[nat i := f (contents l ! nat i)]"
    using c ch i vals_map_data [OF p path_distinct [OF p] i] by (simp add: contents_def)
  ultimately show ?thesis using r by (simp add: index_modify_def)
qed

subsection \<open>The methods of \<^verbatim>\<open>CustomLinkedList\<close>\<close>

text \<open>\<^verbatim>\<open>push_back\<close> keeps the list well formed, appends the value at the end of the
  sequence and increments \<^verbatim>\<open>count\<close> by one.\<close>

theorem push_back_refines:
  "ll_inv l \<Longrightarrow>
     ll_inv (push_back l v) \<and> contents (push_back l v) = contents l @ [v]
     \<and> list_size (push_back l v) = list_size l + 1"
  by (simp add: push_back_inv push_back_contents list_size_def)

theorem push_back_refines_witness:
  "ll_inv (push_back empty_clist (1::int)) \<and> ll_inv (push_back (push_back empty_clist (1::int)) 2)
   \<and> contents (push_back (push_back empty_clist (1::int)) 2) = contents (push_back empty_clist (1::int)) @ [2]
   \<and> list_size (push_back (push_back empty_clist (1::int)) 2) = list_size (push_back empty_clist (1::int)) + 1"
proof -
  have h: "ll_inv (push_back empty_clist (1::int))" by code_simp
  show ?thesis using h push_back_refines [OF h, of 2] by blast
qed

text \<open>\<^verbatim>\<open>push_front\<close> keeps the list well formed, puts the value first and increments
  \<^verbatim>\<open>count\<close>.\<close>

theorem push_front_refines:
  "ll_inv l \<Longrightarrow>
     ll_inv (push_front l v) \<and> contents (push_front l v) = v # contents l
     \<and> list_size (push_front l v) = list_size l + 1"
  by (simp add: push_front_inv push_front_contents list_size_def)

theorem push_front_refines_witness:
  "ll_inv (push_back empty_clist (1::int)) \<and> ll_inv (push_front (push_back empty_clist (1::int)) 0)
   \<and> contents (push_front (push_back empty_clist (1::int)) 0) = 0 # contents (push_back empty_clist 1)
   \<and> list_size (push_front (push_back empty_clist (1::int)) 0) = list_size (push_back empty_clist (1::int)) + 1"
proof -
  have h: "ll_inv (push_back empty_clist (1::int))" by code_simp
  show ?thesis using h push_front_refines [OF h, of 0] by blast
qed

text \<open>On a well-formed list the incrementally kept \<^verbatim>\<open>size()\<close> is the length of the
  sequence and \<^verbatim>\<open>empty()\<close> holds exactly when the sequence is empty.\<close>

theorem size_empty_refines:
  "ll_inv l \<Longrightarrow> list_size l = int (length (contents l)) \<and> (list_empty l \<longleftrightarrow> contents l = [])"
  by (simp add: list_size_def list_empty_def ll_inv_count ll_inv_head)

theorem size_empty_refines_witness:
  "ll_inv (push_back (push_back empty_clist (1::int)) 2) \<and> list_size (push_back (push_back empty_clist (1::int)) 2) = int (length (contents (push_back (push_back empty_clist (1::int)) 2)))
   \<and> (list_empty (push_back (push_back empty_clist (1::int)) 2) \<longleftrightarrow> contents (push_back (push_back empty_clist (1::int)) 2) = [])"
proof -
  have h: "ll_inv (push_back (push_back empty_clist (1::int)) 2)" by code_simp
  show ?thesis using h size_empty_refines [OF h] by blast
qed

text \<open>\<^verbatim>\<open>clear()\<close> terminates on a well-formed list and leaves it empty, with
  \<^verbatim>\<open>count = 0\<close>, and every node of the chain deleted: no slot of the arena is still live.\<close>

theorem clear_releases_all:
  "ll_inv l \<Longrightarrow>
     \<exists>l'. clear l = Some l' \<and> ll_inv l' \<and> contents l' = [] \<and> list_empty l' \<and> list_size l' = 0
          \<and> live (nodes l') = []"
  using clear_some [of l] by (auto simp: list_empty_def list_size_def ll_inv_head ll_inv_count)

theorem clear_releases_all_witness:
  "ll_inv (push_back (push_back empty_clist (1::int)) 2) \<and>
   (\<exists>l'. clear (push_back (push_back empty_clist (1::int)) 2) = Some l' \<and> ll_inv l' \<and> contents l' = [] \<and> list_empty l'
         \<and> list_size l' = 0 \<and> live (nodes l') = [])"
proof -
  have h: "ll_inv (push_back (push_back empty_clist (1::int)) 2)" by code_simp
  show ?thesis using h clear_releases_all [OF h] by blast
qed

text \<open>The copy constructor terminates on a well-formed source and builds a
  well-formed list with the same sequence (a deep copy into nodes of its own).\<close>

theorem copy_is_deep_copy:
  "ll_inv src \<Longrightarrow> \<exists>l'. copy_clist src = Some l' \<and> ll_inv l' \<and> contents l' = contents src"
  using iter_fold_push_back [OF _ ll_inv_empty_clist, of src]
  by (simp add: copy_clist_def contents_empty_clist)

theorem copy_is_deep_copy_witness:
  "ll_inv (push_back (push_back empty_clist (1::int)) 2) \<and> (\<exists>l'. copy_clist (push_back (push_back empty_clist (1::int)) 2) = Some l' \<and> ll_inv l' \<and> contents l' = contents (push_back (push_back empty_clist (1::int)) 2))"
proof -
  have h: "ll_inv (push_back (push_back empty_clist (1::int)) 2)" by code_simp
  show ?thesis using h copy_is_deep_copy [OF h] by blast
qed

text \<open>Copy assignment from another list releases the old chain and leaves the
  target with the source's sequence; assignment of a list to itself leaves it unchanged.\<close>

theorem assign_refines:
  assumes "ll_inv l" and "ll_inv src"
  shows "(\<exists>l'. assign l (Other_object src) = Some l' \<and> ll_inv l' \<and> contents l' = contents src)
         \<and> assign l Same_object = Some l"
proof -
  from clear_some [OF assms(1)] obtain l0 where c: "clear l = Some l0" and i: "ll_inv l0"
    and e: "contents l0 = []" by blast
  from iter_fold_push_back [OF assms(2) i] e
  obtain l' where "iter_fold push_back (nodes src) (head src) (length (nodes src)) l0 = Some l'"
    and "ll_inv l'" and "contents l' = contents src" by auto
  with c show ?thesis by (simp add: assign_def)
qed

theorem assign_refines_witness:
  "ll_inv (push_back (push_back empty_clist (1::int)) 2) \<and> ll_inv (push_back empty_clist (5::int))
   \<and> (\<exists>l'. assign (push_back (push_back empty_clist (1::int)) 2) (Other_object (push_back empty_clist 5)) = Some l' \<and> ll_inv l'
         \<and> contents l' = contents (push_back empty_clist (5::int)))
   \<and> assign (push_back (push_back empty_clist (1::int)) 2) Same_object = Some (push_back (push_back empty_clist (1::int)) 2)"
proof -
  have h1: "ll_inv (push_back (push_back empty_clist (1::int)) 2)" by code_simp
  have h2: "ll_inv (push_back empty_clist (5::int))" by code_simp
  show ?thesis using h1 h2 assign_refines [OF h1 h2] by blast
qed

text \<open>\<^verbatim>\<open>operator[]\<close> throws \<^verbatim>\<open>std::out_of_range("Index out of bounds")\<close> exactly for
  an index outside \<open>[0, size())\<close>; inside it returns a reference to the element at that
  position.\<close>

theorem index_ref_checked:
  assumes "ll_inv l"
  shows "(i < 0 \<or> int (length (contents l)) \<le> i \<longrightarrow>
            index_ref l i = Inl (Out_of_range ''Index out of bounds''))
         \<and> (0 \<le> i \<and> i < int (length (contents l)) \<longrightarrow>
            (\<exists>a. index_ref l i = Inr a \<and> val_at (nodes l) a = contents l ! nat i))"
  using index_ref_in_range [OF assms] ll_inv_count [OF assms] by (auto simp: index_ref_def)

theorem index_ref_checked_witness:
  "ll_inv (push_back (push_back empty_clist (1::int)) 2) \<and> index_ref (push_back (push_back empty_clist (1::int)) 2) 2 = Inl (Out_of_range ''Index out of bounds'')
   \<and> (\<exists>a. index_ref (push_back (push_back empty_clist (1::int)) 2) 1 = Inr a \<and> val_at (nodes (push_back (push_back empty_clist (1::int)) 2)) a = 2)"
proof -
  have h: "ll_inv (push_back (push_back empty_clist (1::int)) 2)" by code_simp
  have c: "contents (push_back (push_back empty_clist (1::int)) 2) = [1, 2]" by code_simp
  show ?thesis using h index_ref_checked [OF h, of 2] index_ref_checked [OF h, of 1] c by auto
qed

text \<open>\<^verbatim>\<open>at()\<close> returns the null pointer for an index outside \<open>[0, size())\<close> and
  otherwise a pointer to the element at that position.\<close>

theorem at_ptr_checked:
  assumes "ll_inv l"
  shows "(i < 0 \<or> int (length (contents l)) \<le> i \<longrightarrow> at_ptr l i = None)
         \<and> (0 \<le> i \<and> i < int (length (contents l)) \<longrightarrow>
            (\<exists>a. at_ptr l i = Some a \<and> val_at (nodes l) a = contents l ! nat i))"
proof -
  have "\<exists>a. at_ptr l i = Some a \<and> val_at (nodes l) a = contents l ! nat i"
    if "0 \<le> i" "i < int (length (contents l))"
  proof -
    from ll_inv_nth_addr [OF assms that] obtain a where
      "nth_addr (nodes l) (head l) (nat i) = Some a" and "val_at (nodes l) a = contents l ! nat i"
      by blast
    with that ll_inv_count [OF assms] show ?thesis by (auto simp: at_ptr_def)
  qed
  then show ?thesis using ll_inv_count [OF assms] by (auto simp: at_ptr_def)
qed

theorem at_ptr_checked_witness:
  "ll_inv (push_back (push_back empty_clist (1::int)) 2) \<and> at_ptr (push_back (push_back empty_clist (1::int)) 2) (-1) = None
   \<and> (\<exists>a. at_ptr (push_back (push_back empty_clist (1::int)) 2) 0 = Some a \<and> val_at (nodes (push_back (push_back empty_clist (1::int)) 2)) a = 1)"
proof -
  have h: "ll_inv (push_back (push_back empty_clist (1::int)) 2)" by code_simp
  have c: "contents (push_back (push_back empty_clist (1::int)) 2) = [1, 2]" by code_simp
  show ?thesis using h at_ptr_checked [OF h, of "-1"] at_ptr_checked [OF h, of 0] c by auto
qed

text \<open>Writing through the reference of \<^verbatim>\<open>operator[]\<close> at a valid index changes
  exactly that element of the sequence and keeps the list well formed.\<close>

theorem index_modify_refines:
  assumes "ll_inv l" and "0 \<le> i" and "i < int (length (contents l))"
  shows "\<exists>l'. index_modify l i f = Inr l' \<and> ll_inv l'
           \<and> contents l' = (contents l)[nat i := f (contents l ! nat i)]"
  using assms by (rule index_modify_in_range)

theorem index_modify_refines_witness:
  "ll_inv (push_back (push_back empty_clist (1::int)) 2) \<and> (0::int) \<le> 1 \<and> 1 < int (length (contents (push_back (push_back empty_clist (1::int)) 2)))
   \<and> (\<exists>l'. index_modify (push_back (push_back empty_clist (1::int)) 2) 1 (\<lambda>x. x + 10) = Inr l' \<and> ll_inv l'
         \<and> contents l' = (contents (push_back (push_back empty_clist (1::int)) 2))[1 := contents (push_back (push_back empty_clist (1::int)) 2) ! 1 + 10])"
proof -
  have h: "ll_inv (push_back (push_back empty_clist (1::int)) 2)" by code_simp
  have c: "contents (push_back (push_back empty_clist (1::int)) 2) = [1, 2]" by code_simp
  have "(0::int) \<le> 1" and "1 < int (length (contents (push_back (push_back empty_clist (1::int)) 2)))" using c by simp_all
  with h show ?thesis using index_modify_refines [OF h, of 1 "\<lambda>x. x + 10"] by auto
qed

end
