(* ===== verification/VolunteerQueue.thy ===== *)
theory VolunteerQueue
  imports Chain
begin

text \<open>
  \<^verbatim>\<open>VolunteerQueue\<close> (\<^verbatim>\<open>include/VolunteerQueue.hpp\<close>, \<^verbatim>\<open>src/VolunteerQueue.cpp\<close>):
  a FIFO queue of \<^verbatim>\<open>Volunteer\<close> records over its own chain of \<^verbatim>\<open>Node\<close>s, with a head
  (next to leave) and a tail (last to arrive) but, unlike \<^verbatim>\<open>CustomLinkedList\<close>, no
  counter: \<^verbatim>\<open>size()\<close> walks the chain. The operations are the constructor \<open>vq_init\<close>,
  \<open>enqueue\<close>, \<open>dequeue\<close> (which throws \<^verbatim>\<open>std::runtime_error\<close> on an empty queue),
  \<open>is_empty_q\<close> (\<^verbatim>\<open>isEmpty\<close>), \<open>queue_size\<close> (\<^verbatim>\<open>size\<close>) and the destructor
  \<open>destroy\<close>, which dequeues until the queue is empty, and \<open>displayAll\<close>, whose output is
  modelled as the rows it prints.

  \<open>vq_inv\<close> is the ownership invariant of theory \<open>Chain\<close> for the queue's chain;
  \<open>queue_list\<close> reads the volunteers from head to tail. \<open>dequeue_n\<close> is not code of the
  program: it is the client that calls \<^verbatim>\<open>dequeue\<close> \<open>n\<close> times, used to state the FIFO
  property.
\<close>

record volunteer =
  name :: string
  contact :: string
  skill :: string

record vqueue =
  qnodes :: "volunteer arena"
  qhead :: "addr option"
  qtail :: "addr option"

definition vq_init :: vqueue where
  "vq_init = \<lparr>qnodes = [], qhead = None, qtail = None\<rparr>"

definition is_empty_q :: "vqueue \<Rightarrow> bool" where
  "is_empty_q q \<longleftrightarrow> qhead q = None"

definition enqueue :: "vqueue \<Rightarrow> volunteer \<Rightarrow> vqueue" where
  "enqueue q v =
     (let (ar, a) = alloc (qnodes q) v in
      if is_empty_q q then q\<lparr>qnodes := ar, qhead := Some a, qtail := Some a\<rparr>
      else q\<lparr>qnodes := (case qtail q of None \<Rightarrow> ar | Some t \<Rightarrow> set_nxt ar t (Some a)),
             qtail := Some a\<rparr>)"

definition dequeue :: "vqueue \<Rightarrow> exn + volunteer \<times> vqueue" where
  "dequeue q =
     (if is_empty_q q then Inl (Runtime_error ''Cannot dequeue from empty queue'')
      else (case qhead q of
              None \<Rightarrow> Inl Null_deref
            | Some h \<Rightarrow>
                (case deref (qnodes q) h of
                   None \<Rightarrow> Inl Null_deref
                 | Some nd \<Rightarrow>
                     (let head' = nxt nd;
                          tail' = (if head' = None then None else qtail q)
                      in Inr (data nd, q\<lparr>qnodes := free_node (qnodes q) h, qhead := head',
                                         qtail := tail'\<rparr>)))))"

definition queue_size :: "vqueue \<Rightarrow> int option" where
  "queue_size q = iter_fold (\<lambda>c _. c + 1) (qnodes q) (qhead q) (length (qnodes q)) 0"

text \<open>\<^verbatim>\<open>displayAll\<close>: the rows it prints (position from 1, volunteer) and the total from \<^verbatim>\<open>size()\<close>.\<close>

datatype display_out = Empty_queue_msg | Queue_table "(int \<times> volunteer) list" int

definition display_step :: "int \<times> (int \<times> volunteer) list \<Rightarrow> volunteer \<Rightarrow> int \<times> (int \<times> volunteer) list" where
  "display_step st v = (case st of (position, rows) \<Rightarrow> (position + 1, rows @ [(position, v)]))"

definition displayAll :: "vqueue \<Rightarrow> display_out option" where
  "displayAll q =
     (if is_empty_q q then Some Empty_queue_msg
      else (case iter_fold display_step (qnodes q) (qhead q) (length (qnodes q)) (1, []) of
              None \<Rightarrow> None
            | Some (_, rows) \<Rightarrow> map_option (Queue_table rows) (queue_size q)))"

fun destroy_loop :: "vqueue \<Rightarrow> nat \<Rightarrow> vqueue option" where
  "destroy_loop q 0 = (if is_empty_q q then Some q else None)"
| "destroy_loop q (Suc n) =
     (if is_empty_q q then Some q
      else (case dequeue q of
              Inl (Runtime_error _) \<Rightarrow> Some q
            | Inl _ \<Rightarrow> None
            | Inr (_, q') \<Rightarrow> destroy_loop q' n))"

definition destroy :: "vqueue \<Rightarrow> vqueue option" where
  "destroy q = destroy_loop q (length (qnodes q))"

definition vq_inv :: "vqueue \<Rightarrow> bool" where
  "vq_inv q \<longleftrightarrow>
     (case chain (qnodes q) (qhead q) of
        None \<Rightarrow> False
      | Some as \<Rightarrow> qtail q = last_opt as \<and> set (live (qnodes q)) = set as)"

definition queue_list :: "vqueue \<Rightarrow> volunteer list" where
  "queue_list q = (case chain (qnodes q) (qhead q) of None \<Rightarrow> [] | Some as \<Rightarrow> vals (qnodes q) as)"

fun dequeue_n :: "nat \<Rightarrow> vqueue \<Rightarrow> exn + volunteer list \<times> vqueue" where
  "dequeue_n 0 q = Inr ([], q)"
| "dequeue_n (Suc n) q =
     (case dequeue q of
        Inl e \<Rightarrow> Inl e
      | Inr (v, q') \<Rightarrow> (case dequeue_n n q' of Inl e \<Rightarrow> Inl e | Inr (vs, q'') \<Rightarrow> Inr (v # vs, q'')))"

subsection \<open>Invariant and abstraction\<close>

lemma vq_inv_owns: "vq_inv q \<longleftrightarrow> (\<exists>as. owns (qnodes q) (qhead q) (qtail q) as)"
  by (auto simp: vq_inv_def owns_def split: option.splits)

lemma queue_list_owns: "owns (qnodes q) (qhead q) (qtail q) as \<Longrightarrow> queue_list q = vals (qnodes q) as"
  by (simp add: owns_def queue_list_def)

lemma vq_invE:
  assumes "vq_inv q"
  obtains as where "owns (qnodes q) (qhead q) (qtail q) as" and "queue_list q = vals (qnodes q) as"
  using assms by (auto simp: vq_inv_owns queue_list_owns)

lemma vq_inv_init: "vq_inv vq_init" and queue_list_init: "queue_list vq_init = []"
  by (simp_all add: vq_init_def vq_inv_def queue_list_def chain_def live_def)

lemma owns_is_empty_q: "owns (qnodes q) (qhead q) (qtail q) as \<Longrightarrow> is_empty_q q \<longleftrightarrow> as = []"
  by (cases as) (auto simp: owns_def chain_iff_path is_empty_q_def)

subsection \<open>\<open>enqueue\<close>\<close>

lemma enqueue_owns:
  assumes "owns (qnodes q) (qhead q) (qtail q) as"
  shows "owns (qnodes (enqueue q v)) (qhead (enqueue q v)) (qtail (enqueue q v))
           (as @ [length (qnodes q)])"
    and "vals (qnodes (enqueue q v)) (as @ [length (qnodes q)]) = vals (qnodes q) as @ [v]"
proof -
  have p: "path (qnodes q) (qhead q) as None" using assms by (simp add: owns_def chain_iff_path)
  show "owns (qnodes (enqueue q v)) (qhead (enqueue q v)) (qtail (enqueue q v))
           (as @ [length (qnodes q)])"
  proof (cases "qhead q")
    case None
    with assms show ?thesis by (simp add: enqueue_def is_empty_q_def alloc_def owns_snoc_empty)
  next
    case (Some h)
    then have ne: "qhead q \<noteq> None" by simp
    from assms Some have "as \<noteq> []" by (cases as) (auto simp: owns_def chain_iff_path)
    with assms have "qtail q = Some (last as)" by (simp add: owns_def last_opt_Some)
    with Some show ?thesis
      using owns_snoc [OF assms ne, of v] by (simp add: enqueue_def is_empty_q_def alloc_def)
  qed
  show "vals (qnodes (enqueue q v)) (as @ [length (qnodes q)]) = vals (qnodes q) as @ [v]"
    using p by (cases "qtail q") (simp_all add: enqueue_def alloc_def vals_snoc_node
        vals_append_arena val_at_append_new val_at_set_nxt)
qed

lemma enqueue_inv_list:
  assumes "vq_inv q"
  shows "vq_inv (enqueue q v)" and "queue_list (enqueue q v) = queue_list q @ [v]"
proof -
  from assms obtain as where o: "owns (qnodes q) (qhead q) (qtail q) as"
    and l: "queue_list q = vals (qnodes q) as" by (rule vq_invE)
  show "vq_inv (enqueue q v)" using enqueue_owns(1) [OF o] by (auto simp: vq_inv_owns)
  show "queue_list (enqueue q v) = queue_list q @ [v]"
    using queue_list_owns [OF enqueue_owns(1) [OF o]] enqueue_owns(2) [OF o] l by simp
qed

lemma foldl_enqueue:
  "vq_inv q \<Longrightarrow> vq_inv (foldl enqueue q vs) \<and> queue_list (foldl enqueue q vs) = queue_list q @ vs"
  by (induction vs arbitrary: q) (auto simp: enqueue_inv_list)

subsection \<open>\<open>dequeue\<close>\<close>

lemma dequeue_owns:
  assumes "owns (qnodes q) (qhead q) (qtail q) (a # as)"
  shows "\<exists>q'. dequeue q = Inr (val_at (qnodes q) a, q') \<and> owns (qnodes q') (qhead q') (qtail q') as
           \<and> vals (qnodes q') as = vals (qnodes q) as \<and> length (qnodes q') = length (qnodes q)"
proof -
  from assms have p: "path (qnodes q) (qhead q) (a # as) None" by (simp add: owns_def chain_iff_path)
  then obtain nd where h: "qhead q = Some a" and nd: "deref (qnodes q) a = Some nd"
    by (auto split: option.splits)
  let ?q' = "q\<lparr>qnodes := free_node (qnodes q) a, qhead := nxt nd,
               qtail := (if nxt nd = None then None else qtail q)\<rparr>"
  have "dequeue q = Inr (val_at (qnodes q) a, ?q')"
    using h nd by (simp add: dequeue_def is_empty_q_def val_at_def Let_def)
  moreover have "owns (qnodes ?q') (qhead ?q') (qtail ?q') as"
    using owns_pop(2) [of "qnodes q" a "qtail q" a as nd] assms h nd by simp
  moreover have "vals (qnodes ?q') as = vals (qnodes q) as"
    using owns_pop(3) [of "qnodes q" a "qtail q" a as nd] assms h nd by simp
  ultimately show ?thesis by auto
qed

lemma dequeue_Nil: "owns (qnodes q) (qhead q) (qtail q) [] \<Longrightarrow>
    dequeue q = Inl (Runtime_error ''Cannot dequeue from empty queue'')"
  by (simp add: dequeue_def owns_is_empty_q)

lemma dequeue_list:
  assumes "vq_inv q" and "queue_list q = v # vs"
  shows "\<exists>q'. dequeue q = Inr (v, q') \<and> vq_inv q' \<and> queue_list q' = vs"
proof -
  from assms(1) obtain as where o: "owns (qnodes q) (qhead q) (qtail q) as"
    and l: "queue_list q = vals (qnodes q) as" by (rule vq_invE)
  with assms(2) obtain a as' where as: "as = a # as'" by (cases as) auto
  from dequeue_owns [OF o [unfolded as]] obtain q' where
    d: "dequeue q = Inr (val_at (qnodes q) a, q')" and o': "owns (qnodes q') (qhead q') (qtail q') as'"
    and v: "vals (qnodes q') as' = vals (qnodes q) as'" by blast
  from l assms(2) as have "val_at (qnodes q) a = v" and "vals (qnodes q) as' = vs" by simp_all
  with d o' v show ?thesis by (auto simp: vq_inv_owns queue_list_owns)
qed

lemma dequeue_n_list:
  "vq_inv q \<Longrightarrow> n = length (queue_list q) \<Longrightarrow>
     \<exists>q'. dequeue_n n q = Inr (queue_list q, q') \<and> vq_inv q' \<and> queue_list q' = []"
proof (induction n arbitrary: q)
  case 0
  then show ?case by simp
next
  case (Suc n)
  then obtain v vs where l: "queue_list q = v # vs" by (cases "queue_list q") auto
  from dequeue_list [OF Suc.prems(1) l] obtain q' where
    d: "dequeue q = Inr (v, q')" and i: "vq_inv q'" and l': "queue_list q' = vs" by blast
  from Suc.prems(2) l l' have "n = length (queue_list q')" by simp
  with i obtain q'' where "dequeue_n n q' = Inr (queue_list q', q'')" and "vq_inv q''"
    and "queue_list q'' = []" using Suc.IH by blast
  with d l l' show ?case by simp
qed

subsection \<open>\<open>size\<close> and the destructor\<close>

lemma foldl_count: "foldl (\<lambda>c _. c + 1) (c :: int) xs = c + int (length xs)"
  by (induction xs arbitrary: c) auto

lemma queue_size_owns:
  "owns (qnodes q) (qhead q) (qtail q) as \<Longrightarrow> queue_size q = Some (int (length as))"
  by (simp add: owns_def queue_size_def iter_fold_chain foldl_count)

lemma destroy_loop_owns:
  "owns (qnodes q) (qhead q) (qtail q) as \<Longrightarrow> length as \<le> n \<Longrightarrow>
     \<exists>q'. destroy_loop q n = Some q' \<and> is_empty_q q' \<and> live (qnodes q') = []
          \<and> length (qnodes q') = length (qnodes q)"
proof (induction as arbitrary: q n)
  case Nil
  then have "is_empty_q q" and "live (qnodes q) = []"
    by (simp_all add: owns_is_empty_q) (simp add: owns_def)
  then show ?case by (cases n) auto
next
  case (Cons a as)
  from Cons.prems(2) obtain n' where n: "n = Suc n'" and len: "length as \<le> n'" by (cases n) auto
  from dequeue_owns [OF Cons.prems(1)] obtain q' where
    d: "dequeue q = Inr (val_at (qnodes q) a, q')" and o': "owns (qnodes q') (qhead q') (qtail q') as"
    and lq: "length (qnodes q') = length (qnodes q)" by blast
  from Cons.IH [OF o' len] lq obtain q'' where "destroy_loop q' n' = Some q''" and "is_empty_q q''"
    and "live (qnodes q'') = []" and "length (qnodes q'') = length (qnodes q)" by auto
  moreover have "\<not> is_empty_q q" using Cons.prems(1) by (simp add: owns_is_empty_q)
  ultimately show ?case using d n by auto
qed

lemma dequeue_n_prefix:
  "vq_inv q \<Longrightarrow> m \<le> length (queue_list q) \<Longrightarrow>
     \<exists>q'. dequeue_n m q = Inr (take m (queue_list q), q') \<and> vq_inv q'
          \<and> queue_list q' = drop m (queue_list q)"
proof (induction m arbitrary: q)
  case 0
  then show ?case by simp
next
  case (Suc m)
  then obtain v vs where l: "queue_list q = v # vs" by (cases "queue_list q") auto
  from dequeue_list [OF Suc.prems(1) l] obtain q' where
    d: "dequeue q = Inr (v, q')" and i: "vq_inv q'" and l': "queue_list q' = vs" by blast
  from Suc.prems(2) l l' have "m \<le> length (queue_list q')" by simp
  with i obtain q'' where "dequeue_n m q' = Inr (take m (queue_list q'), q'')" and "vq_inv q''"
    and "queue_list q'' = drop m (queue_list q')" using Suc.IH by blast
  with d l l' show ?case by simp
qed

lemma queue_size_inv: "vq_inv q \<Longrightarrow> queue_size q = Some (int (length (queue_list q)))"
  by (auto elim!: vq_invE simp: queue_size_owns)

lemma foldl_display_step:
  "foldl display_step (p, rs) xs = (p + int (length xs), rs @ zip (map (\<lambda>k. p + int k) [0..<length xs]) xs)"
proof (induction xs arbitrary: p rs)
  case (Cons v xs)
  have "map (\<lambda>k. p + int k) [0..<length (v # xs)] = p # map (\<lambda>k. (p + 1) + int k) [0..<length xs]"
    by (simp add: map_upt_Suc add.assoc del: upt_Suc)
  then show ?case using Cons [of "p + 1" "rs @ [(p, v)]"] by (simp add: display_step_def)
qed simp

lemma displayAll_list:
  "vq_inv q \<Longrightarrow>
     displayAll q = Some (if queue_list q = [] then Empty_queue_msg
                          else Queue_table (zip (map (\<lambda>k. int k + 1) [0..<length (queue_list q)]) (queue_list q))
                                 (int (length (queue_list q))))"
proof -
  assume "vq_inv q"
  then obtain as where o: "owns (qnodes q) (qhead q) (qtail q) as" and l: "queue_list q = vals (qnodes q) as"
    by (rule vq_invE)
  then have ch: "chain (qnodes q) (qhead q) = Some as" by (simp add: owns_def)
  show ?thesis using o l
    by (simp add: displayAll_def owns_is_empty_q iter_fold_chain [OF ch] foldl_display_step
                  queue_size_owns add.commute)
qed

subsection \<open>The methods of \<^verbatim>\<open>VolunteerQueue\<close>\<close>

text \<open>C4: FIFO: after enqueuing \<open>v\<^sub>1 \<dots> v\<^sub>n\<close> on a well-formed queue, dequeuing as many
  times as there are volunteers yields the volunteers that were waiting followed by
  \<open>v\<^sub>1 \<dots> v\<^sub>n\<close>, in that order, and leaves the queue empty.\<close>

theorem queue_fifo:
  "vq_inv q \<Longrightarrow>
     \<exists>q'. dequeue_n (length (queue_list q) + length vs) (foldl enqueue q vs)
            = Inr (queue_list q @ vs, q') \<and> vq_inv q' \<and> queue_list q' = []"
proof -
  assume "vq_inv q"
  from foldl_enqueue [OF this, of vs]
  have "vq_inv (foldl enqueue q vs)" and "queue_list (foldl enqueue q vs) = queue_list q @ vs" by auto
  then show ?thesis using dequeue_n_list [of "foldl enqueue q vs"] by simp
qed

theorem queue_fifo_witness:
  "vq_inv vq_init \<and>
   (\<exists>q'. dequeue_n (length (queue_list vq_init) + 2) (foldl enqueue vq_init [\<lparr>name = ''Ana'', contact = ''555'', skill = ''medic''\<rparr>, \<lparr>name = ''Ben'', contact = ''777'', skill = ''driver''\<rparr>])
          = Inr (queue_list vq_init @ [\<lparr>name = ''Ana'', contact = ''555'', skill = ''medic''\<rparr>, \<lparr>name = ''Ben'', contact = ''777'', skill = ''driver''\<rparr>], q') \<and> vq_inv q' \<and> queue_list q' = [])"
  using vq_inv_init queue_fifo [OF vq_inv_init, of "[\<lparr>name = ''Ana'', contact = ''555'', skill = ''medic''\<rparr>, \<lparr>name = ''Ben'', contact = ''777'', skill = ''driver''\<rparr>]"] by simp

text \<open>Size: after \<open>k\<close> enqueues on an empty queue and \<open>m \<le> k\<close> successful
  dequeues, the dequeued volunteers are the first \<open>m\<close> enqueued and \<^verbatim>\<open>size()\<close>, which
  walks the chain, returns \<open>k - m\<close>.\<close>

theorem queue_size_after_ops:
  assumes "vq_inv q" and "queue_list q = []" and "m \<le> length vs"
  shows "\<exists>q'. dequeue_n m (foldl enqueue q vs) = Inr (take m vs, q')
           \<and> queue_size q' = Some (int (length vs - m))"
proof -
  from foldl_enqueue [OF assms(1), of vs] assms(2)
  have i: "vq_inv (foldl enqueue q vs)" and l: "queue_list (foldl enqueue q vs) = vs" by auto
  from dequeue_n_prefix [OF i] l assms(3) obtain q' where
    "dequeue_n m (foldl enqueue q vs) = Inr (take m vs, q')" and "vq_inv q'"
    and "queue_list q' = drop m vs" by auto
  then show ?thesis by (auto simp: queue_size_inv)
qed

theorem queue_size_after_ops_witness:
  "vq_inv vq_init \<and> queue_list vq_init = [] \<and> 1 \<le> length [\<lparr>name = ''Ana'', contact = ''555'', skill = ''medic''\<rparr>, \<lparr>name = ''Ben'', contact = ''777'', skill = ''driver''\<rparr>] \<and>
   (\<exists>q'. dequeue_n 1 (foldl enqueue vq_init [\<lparr>name = ''Ana'', contact = ''555'', skill = ''medic''\<rparr>, \<lparr>name = ''Ben'', contact = ''777'', skill = ''driver''\<rparr>]) = Inr (take 1 [\<lparr>name = ''Ana'', contact = ''555'', skill = ''medic''\<rparr>, \<lparr>name = ''Ben'', contact = ''777'', skill = ''driver''\<rparr>], q')
         \<and> queue_size q' = Some (int (length [\<lparr>name = ''Ana'', contact = ''555'', skill = ''medic''\<rparr>, \<lparr>name = ''Ben'', contact = ''777'', skill = ''driver''\<rparr>] - 1)))"
  using vq_inv_init queue_list_init queue_size_after_ops [OF vq_inv_init queue_list_init, of 1 "[\<lparr>name = ''Ana'', contact = ''555'', skill = ''medic''\<rparr>, \<lparr>name = ''Ben'', contact = ''777'', skill = ''driver''\<rparr>]"]
  by simp

text \<open>\<^verbatim>\<open>enqueue\<close> keeps the queue well formed and adds the volunteer at the rear.\<close>

theorem enqueue_refines:
  "vq_inv q \<Longrightarrow> vq_inv (enqueue q v) \<and> queue_list (enqueue q v) = queue_list q @ [v]"
  by (simp add: enqueue_inv_list)

theorem enqueue_refines_witness:
  "vq_inv vq_init \<and> vq_inv (enqueue vq_init \<lparr>name = ''Ana'', contact = ''555'', skill = ''medic''\<rparr>) \<and> queue_list (enqueue vq_init \<lparr>name = ''Ana'', contact = ''555'', skill = ''medic''\<rparr>) = queue_list vq_init @ [\<lparr>name = ''Ana'', contact = ''555'', skill = ''medic''\<rparr>]"
  using vq_inv_init enqueue_refines [OF vq_inv_init, of "\<lparr>name = ''Ana'', contact = ''555'', skill = ''medic''\<rparr>"] by simp

text \<open>\<^verbatim>\<open>dequeue\<close> on a non-empty queue returns the volunteer at the front and leaves
  the others, in order, in a well-formed queue.\<close>

theorem dequeue_refines:
  "vq_inv q \<Longrightarrow> queue_list q = v # vs \<Longrightarrow>
     \<exists>q'. dequeue q = Inr (v, q') \<and> vq_inv q' \<and> queue_list q' = vs"
  by (rule dequeue_list)

theorem dequeue_refines_witness:
  "vq_inv (foldl enqueue vq_init [\<lparr>name = ''Ana'', contact = ''555'', skill = ''medic''\<rparr>, \<lparr>name = ''Ben'', contact = ''777'', skill = ''driver''\<rparr>]) \<and> queue_list (foldl enqueue vq_init [\<lparr>name = ''Ana'', contact = ''555'', skill = ''medic''\<rparr>, \<lparr>name = ''Ben'', contact = ''777'', skill = ''driver''\<rparr>]) = \<lparr>name = ''Ana'', contact = ''555'', skill = ''medic''\<rparr> # [\<lparr>name = ''Ben'', contact = ''777'', skill = ''driver''\<rparr>] \<and>
   (\<exists>q'. dequeue (foldl enqueue vq_init [\<lparr>name = ''Ana'', contact = ''555'', skill = ''medic''\<rparr>, \<lparr>name = ''Ben'', contact = ''777'', skill = ''driver''\<rparr>]) = Inr (\<lparr>name = ''Ana'', contact = ''555'', skill = ''medic''\<rparr>, q') \<and> vq_inv q' \<and> queue_list q' = [\<lparr>name = ''Ben'', contact = ''777'', skill = ''driver''\<rparr>])"
proof -
  have i: "vq_inv (foldl enqueue vq_init [\<lparr>name = ''Ana'', contact = ''555'', skill = ''medic''\<rparr>, \<lparr>name = ''Ben'', contact = ''777'', skill = ''driver''\<rparr>])"
    and l: "queue_list (foldl enqueue vq_init [\<lparr>name = ''Ana'', contact = ''555'', skill = ''medic''\<rparr>, \<lparr>name = ''Ben'', contact = ''777'', skill = ''driver''\<rparr>]) = \<lparr>name = ''Ana'', contact = ''555'', skill = ''medic''\<rparr> # [\<lparr>name = ''Ben'', contact = ''777'', skill = ''driver''\<rparr>]"
    using foldl_enqueue [OF vq_inv_init, of "[\<lparr>name = ''Ana'', contact = ''555'', skill = ''medic''\<rparr>, \<lparr>name = ''Ben'', contact = ''777'', skill = ''driver''\<rparr>]"] by (simp_all add: queue_list_init)
  show ?thesis using i l dequeue_refines [OF i l] by blast
qed

text \<open>C12: \<^verbatim>\<open>dequeue\<close> on an empty queue throws \<^verbatim>\<open>std::runtime_error\<close> with the message
  "Cannot dequeue from empty queue" (it never returns a default volunteer), and the queue's
  \<^verbatim>\<open>size()\<close> stays 0.\<close>

theorem dequeue_empty_error:
  "vq_inv q \<Longrightarrow> queue_list q = [] \<Longrightarrow>
     dequeue q = Inl (Runtime_error ''Cannot dequeue from empty queue'') \<and> queue_size q = Some 0"
proof -
  assume i: "vq_inv q" and e: "queue_list q = []"
  from i obtain as where o: "owns (qnodes q) (qhead q) (qtail q) as" and "queue_list q = vals (qnodes q) as"
    by (rule vq_invE)
  with e have "as = []" by simp
  with o show ?thesis by (simp add: dequeue_Nil queue_size_owns)
qed

theorem dequeue_empty_error_witness:
  "vq_inv vq_init \<and> queue_list vq_init = [] \<and>
   dequeue vq_init = Inl (Runtime_error ''Cannot dequeue from empty queue'') \<and> queue_size vq_init = Some 0"
  using vq_inv_init queue_list_init dequeue_empty_error [OF vq_inv_init queue_list_init] by simp

text \<open>\<^verbatim>\<open>size()\<close> terminates on a well-formed queue and returns the number of
  waiting volunteers; \<^verbatim>\<open>isEmpty()\<close> holds exactly when none is waiting.\<close>

theorem queue_size_correct:
  "vq_inv q \<Longrightarrow> queue_size q = Some (int (length (queue_list q))) \<and> (is_empty_q q \<longleftrightarrow> queue_list q = [])"
proof -
  assume "vq_inv q"
  then obtain as where o: "owns (qnodes q) (qhead q) (qtail q) as" and l: "queue_list q = vals (qnodes q) as"
    by (rule vq_invE)
  then show ?thesis by (simp add: queue_size_owns owns_is_empty_q)
qed

theorem queue_size_correct_witness:
  "vq_inv (enqueue vq_init \<lparr>name = ''Ana'', contact = ''555'', skill = ''medic''\<rparr>) \<and> queue_size (enqueue vq_init \<lparr>name = ''Ana'', contact = ''555'', skill = ''medic''\<rparr>) = Some (int (length (queue_list (enqueue vq_init \<lparr>name = ''Ana'', contact = ''555'', skill = ''medic''\<rparr>))))
   \<and> (is_empty_q (enqueue vq_init \<lparr>name = ''Ana'', contact = ''555'', skill = ''medic''\<rparr>) \<longleftrightarrow> queue_list (enqueue vq_init \<lparr>name = ''Ana'', contact = ''555'', skill = ''medic''\<rparr>) = [])"
proof -
  have i: "vq_inv (enqueue vq_init \<lparr>name = ''Ana'', contact = ''555'', skill = ''medic''\<rparr>)" using enqueue_inv_list(1) [OF vq_inv_init] .
  show ?thesis using i queue_size_correct [OF i] by blast
qed

text \<open>The destructor terminates on a well-formed queue and deletes every node:
  the queue ends empty and no slot of its arena is live.\<close>

theorem destroy_frees_all:
  "vq_inv q \<Longrightarrow> \<exists>q'. destroy q = Some q' \<and> is_empty_q q' \<and> live (qnodes q') = []"
proof -
  assume "vq_inv q"
  then obtain as where o: "owns (qnodes q) (qhead q) (qtail q) as" by (rule vq_invE)
  then have "length as \<le> length (qnodes q)" by (auto simp: owns_def chain_iff_path dest: path_length)
  with destroy_loop_owns [OF o] show ?thesis by (auto simp: destroy_def)
qed

theorem destroy_frees_all_witness:
  "vq_inv (foldl enqueue vq_init [\<lparr>name = ''Ana'', contact = ''555'', skill = ''medic''\<rparr>, \<lparr>name = ''Ben'', contact = ''777'', skill = ''driver''\<rparr>]) \<and>
   (\<exists>q'. destroy (foldl enqueue vq_init [\<lparr>name = ''Ana'', contact = ''555'', skill = ''medic''\<rparr>, \<lparr>name = ''Ben'', contact = ''777'', skill = ''driver''\<rparr>]) = Some q' \<and> is_empty_q q' \<and> live (qnodes q') = [])"
proof -
  have i: "vq_inv (foldl enqueue vq_init [\<lparr>name = ''Ana'', contact = ''555'', skill = ''medic''\<rparr>, \<lparr>name = ''Ben'', contact = ''777'', skill = ''driver''\<rparr>])" using foldl_enqueue [OF vq_inv_init] by blast
  show ?thesis using i destroy_frees_all [OF i] by blast
qed


text \<open>C21: \<^verbatim>\<open>displayAll\<close> traverses the queue from head to tail without changing it: on a
  well-formed queue it terminates and prints the volunteers in FIFO order with positions
  \<open>1, 2, \<dots>\<close> and the total \<^verbatim>\<open>size()\<close>, or the "no volunteers" message when the queue is
  empty.\<close>

theorem displayAll_fifo:
  "vq_inv q \<Longrightarrow>
     displayAll q = Some (if queue_list q = [] then Empty_queue_msg
                          else Queue_table (zip (map (\<lambda>k. int k + 1) [0..<length (queue_list q)]) (queue_list q))
                                 (int (length (queue_list q))))"
  by (rule displayAll_list)

theorem displayAll_fifo_witness:
  "vq_inv (foldl enqueue vq_init [\<lparr>name = ''Ana'', contact = ''555'', skill = ''medic''\<rparr>, \<lparr>name = ''Ben'', contact = ''777'', skill = ''driver''\<rparr>]) \<and> displayAll (foldl enqueue vq_init [\<lparr>name = ''Ana'', contact = ''555'', skill = ''medic''\<rparr>, \<lparr>name = ''Ben'', contact = ''777'', skill = ''driver''\<rparr>]) = Some (Queue_table [(1, \<lparr>name = ''Ana'', contact = ''555'', skill = ''medic''\<rparr>), (2, \<lparr>name = ''Ben'', contact = ''777'', skill = ''driver''\<rparr>)] 2)"
proof -
  have i: "vq_inv (foldl enqueue vq_init [\<lparr>name = ''Ana'', contact = ''555'', skill = ''medic''\<rparr>, \<lparr>name = ''Ben'', contact = ''777'', skill = ''driver''\<rparr>])" and l: "queue_list (foldl enqueue vq_init [\<lparr>name = ''Ana'', contact = ''555'', skill = ''medic''\<rparr>, \<lparr>name = ''Ben'', contact = ''777'', skill = ''driver''\<rparr>]) = [\<lparr>name = ''Ana'', contact = ''555'', skill = ''medic''\<rparr>, \<lparr>name = ''Ben'', contact = ''777'', skill = ''driver''\<rparr>]"
    using foldl_enqueue [OF vq_inv_init, of "[\<lparr>name = ''Ana'', contact = ''555'', skill = ''medic''\<rparr>, \<lparr>name = ''Ben'', contact = ''777'', skill = ''driver''\<rparr>]"] by (simp_all add: queue_list_init)
  show ?thesis using i l displayAll_fifo [OF i] by simp
qed

end
