(* ===== verification/SiteAlgorithm.thy ===== *)
theory SiteAlgorithm
  imports LinkedList
begin

text \<open>
  The site matcher \<^verbatim>\<open>findMostNeededSite\<close> of \<^verbatim>\<open>include/SiteAlgorithm.hpp\<close> over the
  \<^verbatim>\<open>ReliefSite\<close> records of \<^verbatim>\<open>include/VolunteerQueue.hpp\<close> held in a
  \<^verbatim>\<open>CustomLinkedList<ReliefSite>\<close>. The loop body is \<open>fms_step\<close> on the loop state
  (\<^verbatim>\<open>index\<close>, \<^verbatim>\<open>lowestPercentage\<close>, \<^verbatim>\<open>bestSiteIndex\<close>), run by the iterator loop
  \<open>iter_fold\<close> of theory \<open>Chain\<close> from the state \<open>(0, 1.1, -1)\<close>. The console table the
  loop prints is \<open>site_priority_table\<close> of theory \<open>Render\<close>.

  The C++ divides in \<^verbatim>\<open>double\<close>; the model divides exactly in \<open>rat\<close>, the real-valued
  division the specification asks for. The two agree on every comparison the loop makes
  except where two distinct ratios round to the same \<^verbatim>\<open>double\<close> (capacities above
  \<open>2^26\<close>), and where \<^verbatim>\<open>maxCapacity = 0\<close> with a negative \<^verbatim>\<open>currentCount\<close> (the
  \<^verbatim>\<open>double\<close> quotient is \<open>-\<infinity>\<close>, HOL's is \<open>0\<close>); neither arises for counts
  \<open>0 \<le> currentCount < maxCapacity < 2^26\<close>.

  \<open>most_needed xs i\<close> is the contract of the matcher: \<open>i\<close> is the first of the
  qualifying sites (\<^verbatim>\<open>currentCount < maxCapacity\<close>) with the least fill ratio, or
  \<open>-1\<close> when no qualifying site has a ratio below the initial threshold \<open>1.1\<close>.
\<close>

record relief_site =
  site_name :: string
  currentCount :: int
  maxCapacity :: int

definition qualifies :: "relief_site \<Rightarrow> bool" where
  "qualifies s \<longleftrightarrow> currentCount s < maxCapacity s"

definition fill_ratio :: "relief_site \<Rightarrow> rat" where
  "fill_ratio s = of_int (currentCount s) / of_int (maxCapacity s)"

definition fms_step :: "int \<times> rat \<times> int \<Rightarrow> relief_site \<Rightarrow> int \<times> rat \<times> int" where
  "fms_step st s =
     (case st of (index, lowestPercentage, bestSiteIndex) \<Rightarrow>
        if currentCount s < maxCapacity s then
          (let percentage = fill_ratio s in
           if percentage < lowestPercentage then (index + 1, percentage, index)
           else (index + 1, lowestPercentage, bestSiteIndex))
        else (index + 1, lowestPercentage, bestSiteIndex))"

definition findMostNeededSite :: "relief_site clist \<Rightarrow> int option" where
  "findMostNeededSite sites =
     map_option (\<lambda>(_, _, bestSiteIndex). bestSiteIndex)
       (iter_fold fms_step (nodes sites) (head sites) (length (nodes sites)) (0, 11 / 10, -1))"

definition most_needed :: "relief_site list \<Rightarrow> int \<Rightarrow> bool" where
  "most_needed xs i \<longleftrightarrow>
     (if i = -1 then (\<forall>s\<in>set xs. qualifies s \<longrightarrow> 11 / 10 \<le> fill_ratio s)
      else 0 \<le> i \<and> nat i < length xs \<and> qualifies (xs ! nat i) \<and> fill_ratio (xs ! nat i) < 11 / 10
        \<and> (\<forall>j < length xs. qualifies (xs ! j) \<longrightarrow> fill_ratio (xs ! nat i) \<le> fill_ratio (xs ! j))
        \<and> (\<forall>j < nat i. qualifies (xs ! j) \<longrightarrow> fill_ratio (xs ! nat i) < fill_ratio (xs ! j)))"

definition fms_inv :: "relief_site list \<Rightarrow> int \<times> rat \<times> int \<Rightarrow> bool" where
  "fms_inv xs st \<longleftrightarrow>
     (case st of (index, lowest, best) \<Rightarrow>
        index = int (length xs) \<and> most_needed xs best
        \<and> lowest = (if best = -1 then 11 / 10 else fill_ratio (xs ! nat best)))"

subsection \<open>The loop invariant\<close>

lemma fms_inv_Nil: "fms_inv [] (0, 11 / 10, -1)"
  by (simp add: fms_inv_def most_needed_def)

lemma fms_inv_lowest:
  assumes "fms_inv xs (n, low, best)"
  shows "low \<le> 11 / 10" and "\<And>j. j < length xs \<Longrightarrow> qualifies (xs ! j) \<Longrightarrow> low \<le> fill_ratio (xs ! j)"
  using assms by (auto simp: fms_inv_def most_needed_def split: if_splits)

lemma fms_step_take:
  assumes inv: "fms_inv xs (n, low, best)" and q: "qualifies s" and lt: "fill_ratio s < low"
  shows "fms_inv (xs @ [s]) (fms_step (n, low, best) s)"
proof -
  have n: "n = int (length xs)" using inv by (simp add: fms_inv_def)
  have step: "fms_step (n, low, best) s = (n + 1, fill_ratio s, n)"
    using q lt by (simp add: fms_step_def qualifies_def)
  have "fill_ratio s < 11 / 10" using lt fms_inv_lowest(1) [OF inv] by simp
  moreover have "\<forall>j < length xs. qualifies (xs ! j) \<longrightarrow> fill_ratio s < fill_ratio (xs ! j)"
    using lt fms_inv_lowest(2) [OF inv] by fastforce
  ultimately have "most_needed (xs @ [s]) n"
    using q n by (auto simp: most_needed_def nth_append less_Suc_eq less_imp_le)
  then show ?thesis using step n by (simp add: fms_inv_def)
qed

lemma fms_step_keep:
  assumes inv: "fms_inv xs (n, low, best)" and nt: "\<not> (qualifies s \<and> fill_ratio s < low)"
  shows "fms_inv (xs @ [s]) (fms_step (n, low, best) s)"
proof -
  have step: "fms_step (n, low, best) s = (n + 1, low, best)"
    using nt by (auto simp: fms_step_def qualifies_def Let_def)
  have s: "qualifies s \<Longrightarrow> low \<le> fill_ratio s" using nt by auto
  show ?thesis
  proof (cases "best = -1")
    case True
    show ?thesis unfolding step using inv s True by (auto simp: fms_inv_def most_needed_def)
  next
    case False
    with inv have b: "nat best < length xs" and l: "low = fill_ratio (xs ! nat best)"
      by (auto simp: fms_inv_def most_needed_def)
    show ?thesis unfolding step using inv False s b l
      by (auto simp: fms_inv_def most_needed_def nth_append less_Suc_eq)
  qed
qed

lemma fms_step_inv: "fms_inv xs st \<Longrightarrow> fms_inv (xs @ [s]) (fms_step st s)"
  by (cases st) (metis fms_step_keep fms_step_take)

lemma fms_foldl: "fms_inv xs (foldl fms_step (0, 11 / 10, -1) xs)"
  by (induction xs rule: rev_induct) (simp_all add: fms_inv_Nil fms_step_inv)

lemma most_needed_unique: "most_needed xs i \<Longrightarrow> most_needed xs j \<Longrightarrow> i = j"
proof -
  assume i: "most_needed xs i" and j: "most_needed xs j"
  have cross: "False" if "most_needed xs a" "most_needed xs b" "a = -1" "b \<noteq> -1" for a b
    using that by (fastforce simp: most_needed_def)
  have lt: "False" if "most_needed xs a" "most_needed xs b" "a \<noteq> -1" "b \<noteq> -1" "a < b" for a b
  proof -
    from that have "nat a < nat b" "nat b < length xs" "qualifies (xs ! nat a)"
      by (auto simp: most_needed_def)
    with that(2,4) have "fill_ratio (xs ! nat b) < fill_ratio (xs ! nat a)"
      by (auto simp: most_needed_def)
    moreover from that(1,3) \<open>nat b < length xs\<close> have "qualifies (xs ! nat b) \<Longrightarrow>
        fill_ratio (xs ! nat a) \<le> fill_ratio (xs ! nat b)"
      by (auto simp: most_needed_def)
    ultimately show False using that(2,4) by (auto simp: most_needed_def)
  qed
  show "i = j"
  proof (cases "i = -1"; cases "j = -1")
    assume "i \<noteq> -1" "j \<noteq> -1"
    then show ?thesis using lt [OF i j] lt [OF j i] by fastforce
  qed (use cross i j in blast)+
qed

lemma fill_ratio_lt_one: "0 \<le> currentCount s \<Longrightarrow> qualifies s \<Longrightarrow> fill_ratio s < 1"
  by (simp add: fill_ratio_def qualifies_def divide_less_eq)

lemma findMostNeededSite_fold:
  assumes "ll_inv sites"
  shows "findMostNeededSite sites = Some (snd (snd (foldl fms_step (0, 11 / 10, -1) (contents sites))))"
proof -
  from assms obtain as where o: "owns (nodes sites) (head sites) (tail sites) as"
    and c: "contents sites = vals (nodes sites) as" by (rule ll_invE)
  then have "iter_fold fms_step (nodes sites) (head sites) (length (nodes sites)) (0, 11 / 10, -1)
      = Some (foldl fms_step (0, 11 / 10, -1) (contents sites))"
    by (simp add: owns_def iter_fold_chain)
  then show ?thesis by (simp add: findMostNeededSite_def case_prod_beta)
qed

lemma most_needed_minus_one:
  assumes "\<forall>s\<in>set xs. 0 \<le> currentCount s"
  shows "most_needed xs (-1) \<longleftrightarrow> (\<forall>s\<in>set xs. \<not> qualifies s)"
proof
  assume m: "most_needed xs (-1)"
  show "\<forall>s\<in>set xs. \<not> qualifies s"
  proof (intro ballI notI)
    fix s assume s: "s \<in> set xs" and q: "qualifies s"
    with m have "11 / 10 \<le> fill_ratio s" by (simp add: most_needed_def)
    moreover have "fill_ratio s < 1" using fill_ratio_lt_one assms s q by blast
    ultimately show False by simp
  qed
qed (simp add: most_needed_def)

lemma findMostNeededSite_spec:
  assumes "ll_inv sites"
  shows "findMostNeededSite sites = Some (snd (snd (foldl fms_step (0, 11 / 10, -1) (contents sites))))"
    and "most_needed (contents sites) (snd (snd (foldl fms_step (0, 11 / 10, -1) (contents sites))))"
  using findMostNeededSite_fold [OF assms] fms_foldl [of "contents sites"]
  by (auto simp: fms_inv_def split: prod.splits)

subsection \<open>The matcher\<close>

text \<open>C3: On a well-formed site list whose counts are non-negative and whose capacities are at
  most \<open>2^26\<close> the matcher terminates and returns the unique index allowed by its contract:
  the first qualifying site (\<^verbatim>\<open>currentCount < maxCapacity\<close>) with the least fill ratio,
  ties going to the earliest site, or \<open>-1\<close> when no site qualifies. Under these bounds the
  exact division of the model decides every comparison as the C++ \<^verbatim>\<open>double\<close> division
  does: no qualifying site has \<^verbatim>\<open>maxCapacity = 0\<close> (where \<^verbatim>\<open>double\<close> gives
  \<open>-\<infinity>\<close> and HOL \<open>0\<close>), and two distinct ratios below 1 with denominators at most
  \<open>2^26\<close> differ by at least \<open>2^-52\<close>, more than the spacing of doubles below 1, so
  they never round to the same \<^verbatim>\<open>double\<close>.\<close>

theorem findMostNeededSite_correct:
  assumes "ll_inv sites"
    and "list_all (\<lambda>s. 0 \<le> currentCount s \<and> maxCapacity s \<le> 2 ^ 26) (contents sites)"
  shows "\<exists>i. findMostNeededSite sites = Some i \<and> most_needed (contents sites) i
         \<and> (\<forall>j. most_needed (contents sites) j \<longrightarrow> j = i)
         \<and> (i = -1 \<longleftrightarrow> list_all (\<lambda>s. \<not> qualifies s) (contents sites))"
proof -
  obtain i where r: "findMostNeededSite sites = Some i" and m: "most_needed (contents sites) i"
    using findMostNeededSite_spec [OF assms(1)] by blast
  have "\<forall>s\<in>set (contents sites). 0 \<le> currentCount s" using assms(2) by (simp add: list_all_iff)
  then have none: "most_needed (contents sites) (-1) \<longleftrightarrow> list_all (\<lambda>s. \<not> qualifies s) (contents sites)"
    by (simp add: most_needed_minus_one list_all_iff)
  have "i = -1 \<longleftrightarrow> most_needed (contents sites) (-1)" using m most_needed_unique [OF m] by metis
  then have "i = -1 \<longleftrightarrow> list_all (\<lambda>s. \<not> qualifies s) (contents sites)" using none by simp
  then show ?thesis using r m most_needed_unique [OF m] by blast
qed

theorem findMostNeededSite_correct_witness:
  "ll_inv (foldl push_back empty_clist [\<lparr>site_name = ''A'', currentCount = 2, maxCapacity = 10\<rparr>, \<lparr>site_name = ''B'', currentCount = 1, maxCapacity = 5\<rparr>]) \<and>
   list_all (\<lambda>s. 0 \<le> currentCount s \<and> maxCapacity s \<le> 2 ^ 26) (contents (foldl push_back empty_clist [\<lparr>site_name = ''A'', currentCount = 2, maxCapacity = 10\<rparr>, \<lparr>site_name = ''B'', currentCount = 1, maxCapacity = 5\<rparr>])) \<and>
   (\<exists>i. findMostNeededSite (foldl push_back empty_clist [\<lparr>site_name = ''A'', currentCount = 2, maxCapacity = 10\<rparr>, \<lparr>site_name = ''B'', currentCount = 1, maxCapacity = 5\<rparr>]) = Some i \<and> most_needed (contents (foldl push_back empty_clist [\<lparr>site_name = ''A'', currentCount = 2, maxCapacity = 10\<rparr>, \<lparr>site_name = ''B'', currentCount = 1, maxCapacity = 5\<rparr>])) i
       \<and> (\<forall>j. most_needed (contents (foldl push_back empty_clist [\<lparr>site_name = ''A'', currentCount = 2, maxCapacity = 10\<rparr>, \<lparr>site_name = ''B'', currentCount = 1, maxCapacity = 5\<rparr>])) j \<longrightarrow> j = i)
       \<and> (i = -1 \<longleftrightarrow> list_all (\<lambda>s. \<not> qualifies s) (contents (foldl push_back empty_clist [\<lparr>site_name = ''A'', currentCount = 2, maxCapacity = 10\<rparr>, \<lparr>site_name = ''B'', currentCount = 1, maxCapacity = 5\<rparr>]))))"
proof -
  have h: "ll_inv (foldl push_back empty_clist [\<lparr>site_name = ''A'', currentCount = 2, maxCapacity = 10\<rparr>, \<lparr>site_name = ''B'', currentCount = 1, maxCapacity = 5\<rparr>])" by code_simp
  have b: "list_all (\<lambda>s. 0 \<le> currentCount s \<and> maxCapacity s \<le> 2 ^ 26) (contents (foldl push_back empty_clist [\<lparr>site_name = ''A'', currentCount = 2, maxCapacity = 10\<rparr>, \<lparr>site_name = ''B'', currentCount = 1, maxCapacity = 5\<rparr>]))" by code_simp
  show ?thesis by (rule conjI [OF h conjI [OF b findMostNeededSite_correct [OF h b]]])
qed

text \<open>When every count is non-negative, the matcher returns the "no site" signal
  \<open>-1\<close> exactly when no site qualifies (all full, or the list is empty).\<close>

theorem findMostNeededSite_no_site:
  assumes "ll_inv sites" and "\<forall>s\<in>set (contents sites). 0 \<le> currentCount s"
  shows "findMostNeededSite sites = Some (-1) \<longleftrightarrow> (\<forall>s\<in>set (contents sites). \<not> qualifies s)"
proof -
  let ?r = "snd (snd (foldl fms_step (0, 11 / 10, -1) (contents sites)))"
  have r: "findMostNeededSite sites = Some ?r" and m: "most_needed (contents sites) ?r"
    using findMostNeededSite_spec [OF assms(1)] by blast+
  have "?r = -1 \<longleftrightarrow> most_needed (contents sites) (-1)"
    using m most_needed_unique [of "contents sites" ?r "-1"] by auto
  then show ?thesis using r most_needed_minus_one [OF assms(2)] by simp
qed

theorem findMostNeededSite_no_site_witness:
  "ll_inv (foldl push_back empty_clist [\<lparr>site_name = ''A'', currentCount = 10, maxCapacity = 10\<rparr>, \<lparr>site_name = ''B'', currentCount = 5, maxCapacity = 5\<rparr>]) \<and> list_all (\<lambda>s. 0 \<le> currentCount s) (contents (foldl push_back empty_clist [\<lparr>site_name = ''A'', currentCount = 10, maxCapacity = 10\<rparr>, \<lparr>site_name = ''B'', currentCount = 5, maxCapacity = 5\<rparr>]))
   \<and> (findMostNeededSite (foldl push_back empty_clist [\<lparr>site_name = ''A'', currentCount = 10, maxCapacity = 10\<rparr>, \<lparr>site_name = ''B'', currentCount = 5, maxCapacity = 5\<rparr>]) = Some (-1) \<longleftrightarrow> list_all (\<lambda>s. \<not> qualifies s) (contents (foldl push_back empty_clist [\<lparr>site_name = ''A'', currentCount = 10, maxCapacity = 10\<rparr>, \<lparr>site_name = ''B'', currentCount = 5, maxCapacity = 5\<rparr>])))"
proof -
  have h: "ll_inv (foldl push_back empty_clist [\<lparr>site_name = ''A'', currentCount = 10, maxCapacity = 10\<rparr>, \<lparr>site_name = ''B'', currentCount = 5, maxCapacity = 5\<rparr>])" by code_simp
  have c: "\<forall>s\<in>set (contents (foldl push_back empty_clist [\<lparr>site_name = ''A'', currentCount = 10, maxCapacity = 10\<rparr>, \<lparr>site_name = ''B'', currentCount = 5, maxCapacity = 5\<rparr>])). 0 \<le> currentCount s" by code_simp
  show ?thesis using h c findMostNeededSite_no_site [OF h c] by (simp add: list_all_iff)
qed

text \<open>The matcher examples of the specification. Tie-break: for the sites
  \<open>[A 2/10, B 1/5]\<close>, both 20\<percent> full, it selects \<open>A\<close> (index 0), the first encountered.
  All full: for \<open>[A 10/10, B 5/5]\<close> it returns the "no site" signal \<open>-1\<close>. Room: for
  \<open>[A 0/10]\<close> it selects \<open>A\<close>.\<close>

theorem matcher_examples:
  "findMostNeededSite (foldl push_back empty_clist [\<lparr>site_name = ''A'', currentCount = 2, maxCapacity = 10\<rparr>, \<lparr>site_name = ''B'', currentCount = 1, maxCapacity = 5\<rparr>]) = Some 0
   \<and> findMostNeededSite (foldl push_back empty_clist [\<lparr>site_name = ''A'', currentCount = 10, maxCapacity = 10\<rparr>, \<lparr>site_name = ''B'', currentCount = 5, maxCapacity = 5\<rparr>]) = Some (-1)
   \<and> findMostNeededSite (foldl push_back empty_clist [\<lparr>site_name = ''A'', currentCount = 0, maxCapacity = 10\<rparr>]) = Some 0"
  by code_simp

end
