(* ===== verification/Storage.thy ===== *)
theory Storage
  imports LinkedList VolunteerQueue SiteAlgorithm
begin

text \<open>
  The persistence functions of \<^verbatim>\<open>src/main.cpp\<close> that produce and consume the core's
  entities. A data file is the list of its lines, as \<^verbatim>\<open>std::getline\<close> reads them, or
  \<open>None\<close> when it cannot be opened; appending a record appends a line (the
  \<^verbatim>\<open>needsNewline\<close> check of the two append functions is what makes this so).
  Failures of the underlying stream while writing are not modelled.

  \<^item> \<open>trim\<close> is \<^verbatim>\<open>trim\<close>, written with \<^verbatim>\<open>find_first_not_of\<close>/\<^verbatim>\<open>find_last_not_of\<close>
    as the code does (\<open>find_first_not_of\<close>, \<open>find_last_not_of\<close>, \<open>substr\<close>).
  \<^item> \<open>getline_delim\<close> is one \<^verbatim>\<open>std::getline(ss, field, delim)\<close> on the rest of a
    line: it fails exactly when nothing is left to read. \<open>split3\<close> is the three
    \<^verbatim>\<open>getline\<close> calls every volunteer reader makes; \<open>parse_volunteer_line\<close> adds the
    trimming and the non-empty checks of \<^verbatim>\<open>loadVolunteersFromFile\<close>, and
    \<open>parse_ledger_line\<close> the trimming without the checks, as \<^verbatim>\<open>isVolunteerDeployed\<close>
    has it.
  \<^item> \<open>extract_token\<close> is one \<^verbatim>\<open>ss >> str\<close>, \<open>stoi\<close> is \<^verbatim>\<open>std::stoi\<close> (optional sign,
    decimal digits, trailing characters ignored, \<open>None\<close> for \<^verbatim>\<open>invalid_argument\<close> and
    \<^verbatim>\<open>out_of_range\<close>), \<open>show_int\<close> is the decimal output of an \<open>int\<close>.
  \<^item> \<open>loadReliefSites\<close>, \<open>saveReliefSites\<close>, \<open>isVolunteerDeployed\<close>,
    \<open>loadVolunteersFromFile\<close>, \<open>saveVolunteerToFile\<close> and \<open>saveDeployedVolunteer\<close> are
    the functions of the same names.
  The temporary \<^verbatim>\<open>CustomLinkedList<Volunteer>\<close> that \<^verbatim>\<open>isVolunteerDeployed\<close> builds
  is represented by its contents (theory \<open>LinkedList\<close> proves that \<open>push_back\<close>
  appends to them); \<^verbatim>\<open>loadReliefSites\<close> returns the linked list itself, since the
  matcher and \<^verbatim>\<open>operator[]\<close> work on it.
\<close>

definition trim_chars :: "char list" where
  "trim_chars = [CHR '' '', CHR 0x09, CHR 0x0D, CHR 0x0A]"

definition find_first_not_of :: "string \<Rightarrow> char list \<Rightarrow> nat option" where
  "find_first_not_of s cs = find (\<lambda>i. s ! i \<notin> set cs) [0..<length s]"

definition find_last_not_of :: "string \<Rightarrow> char list \<Rightarrow> nat option" where
  "find_last_not_of s cs = find (\<lambda>i. s ! i \<notin> set cs) (rev [0..<length s])"

definition substr :: "string \<Rightarrow> nat \<Rightarrow> nat \<Rightarrow> string" where
  "substr s pos len = take len (drop pos s)"

definition trim :: "string \<Rightarrow> string" where
  "trim str =
     (case find_first_not_of str trim_chars of
        None \<Rightarrow> []
      | Some start \<Rightarrow>
          (case find_last_not_of str trim_chars of
             None \<Rightarrow> []
           | Some end' \<Rightarrow> substr str start (end' - start + 1)))"

definition getline_delim :: "char \<Rightarrow> string \<Rightarrow> (string \<times> string) option" where
  "getline_delim d s =
     (if s = [] then None else Some (takeWhile (\<lambda>c. c \<noteq> d) s, drop 1 (dropWhile (\<lambda>c. c \<noteq> d) s)))"

definition split3 :: "string \<Rightarrow> (string \<times> string \<times> string) option" where
  "split3 line =
     (case getline_delim CHR '','' line of
        None \<Rightarrow> None
      | Some (n, r1) \<Rightarrow>
          (case getline_delim CHR '','' r1 of
             None \<Rightarrow> None
           | Some (c, r2) \<Rightarrow>
               (case getline_delim CHR 0x0A r2 of
                  None \<Rightarrow> None
                | Some (s, _) \<Rightarrow> Some (n, c, s))))"

definition parse_volunteer_line :: "string \<Rightarrow> volunteer option" where
  "parse_volunteer_line line0 =
     (let line = trim line0 in
      if line = [] then None
      else (case split3 line of
              None \<Rightarrow> None
            | Some (n, c, s) \<Rightarrow>
                (let n' = trim n; c' = trim c; s' = trim s in
                 if n' \<noteq> [] \<and> c' \<noteq> [] \<and> s' \<noteq> [] then Some \<lparr>name = n', contact = c', skill = s'\<rparr>
                 else None)))"

definition parse_ledger_line :: "string \<Rightarrow> volunteer option" where
  "parse_ledger_line line0 =
     (let line = trim line0 in
      if line = [] then None
      else (case split3 line of
              None \<Rightarrow> None
            | Some (n, c, s) \<Rightarrow> Some \<lparr>name = trim n, contact = trim c, skill = trim s\<rparr>))"

definition volunteer_line :: "volunteer \<Rightarrow> string" where
  "volunteer_line v = name v @ '','' @ contact v @ '','' @ skill v"

definition isVolunteerDeployed :: "volunteer \<Rightarrow> string list option \<Rightarrow> bool" where
  "isVolunteerDeployed v deployed_file =
     (case deployed_file of
        None \<Rightarrow> False
      | Some ls \<Rightarrow>
          list_ex (\<lambda>d. name d = name v \<and> contact d = contact v \<and> skill d = skill v)
            (List.map_filter parse_ledger_line ls))"

definition load_volunteer_step :: "string list option \<Rightarrow> vqueue \<Rightarrow> string \<Rightarrow> vqueue" where
  "load_volunteer_step deployed_file q line =
     (case parse_volunteer_line line of
        None \<Rightarrow> q
      | Some v \<Rightarrow> if \<not> isVolunteerDeployed v deployed_file then enqueue q v else q)"

definition loadVolunteersFromFile :: "vqueue \<Rightarrow> string list option \<Rightarrow> string list option \<Rightarrow> vqueue" where
  "loadVolunteersFromFile q volunteers_file deployed_file =
     (case volunteers_file of
        None \<Rightarrow> q
      | Some ls \<Rightarrow> foldl (load_volunteer_step deployed_file) q ls)"

definition saveVolunteerToFile :: "volunteer \<Rightarrow> string list option \<Rightarrow> string list option" where
  "saveVolunteerToFile v f = Some ((case f of None \<Rightarrow> [] | Some ls \<Rightarrow> ls) @ [volunteer_line v])"

definition saveDeployedVolunteer :: "volunteer \<Rightarrow> string list option \<Rightarrow> string list option" where
  "saveDeployedVolunteer v f = Some ((case f of None \<Rightarrow> [] | Some ls \<Rightarrow> ls) @ [volunteer_line v])"

definition is_space :: "char \<Rightarrow> bool" where
  "is_space c \<longleftrightarrow> c \<in> {CHR '' '', CHR 0x09, CHR 0x0A, CHR 0x0B, CHR 0x0C, CHR 0x0D}"

definition extract_token :: "string \<Rightarrow> (string \<times> string) option" where
  "extract_token s =
     (let s' = dropWhile is_space s in
      if s' = [] then None else Some (takeWhile (\<lambda>c. \<not> is_space c) s', dropWhile (\<lambda>c. \<not> is_space c) s'))"

definition is_digit :: "char \<Rightarrow> bool" where
  "is_digit c \<longleftrightarrow> 48 \<le> (of_char c :: nat) \<and> (of_char c :: nat) \<le> 57"

definition digits_val :: "string \<Rightarrow> int" where
  "digits_val ds = foldl (\<lambda>acc c. 10 * acc + (int (of_char c) - 48)) 0 ds"

definition stoi :: "string \<Rightarrow> int option" where
  "stoi str =
     (let (sign, rest) =
        (case str of
           c # r \<Rightarrow> if c = CHR ''-'' then (-1, r) else if c = CHR ''+'' then (1, r) else (1, str)
         | [] \<Rightarrow> (1, []));
          ds = takeWhile is_digit rest;
          v = sign * digits_val ds
      in if ds = [] then None else if is_int32 v then Some v else None)"

fun show_nat :: "nat \<Rightarrow> string" where
  "show_nat n = (if n < 10 then [char_of (48 + n)] else show_nat (n div 10) @ [char_of (48 + n mod 10)])"

declare show_nat.simps [simp del]

definition show_int :: "int \<Rightarrow> string" where
  "show_int i = (if i < 0 then CHR ''-'' # show_nat (nat (- i)) else show_nat (nat i))"

definition parse_site_line :: "string \<Rightarrow> relief_site option" where
  "parse_site_line line0 =
     (let line = trim line0 in
      if line = [] then None
      else (case extract_token line of
              None \<Rightarrow> None
            | Some (nm, r1) \<Rightarrow>
                (case extract_token r1 of
                   None \<Rightarrow> None
                 | Some (currentStr, r2) \<Rightarrow>
                     (case extract_token r2 of
                        None \<Rightarrow> None
                      | Some (maxStr, _) \<Rightarrow>
                          (case (stoi currentStr, stoi maxStr) of
                             (Some cur, Some mx) \<Rightarrow>
                               Some \<lparr>site_name = nm, currentCount = cur, maxCapacity = mx\<rparr>
                           | _ \<Rightarrow> None)))))"

definition loadReliefSites :: "string list option \<Rightarrow> relief_site clist" where
  "loadReliefSites f =
     (case f of
        None \<Rightarrow> empty_clist
      | Some ls \<Rightarrow> foldl push_back empty_clist (List.map_filter parse_site_line ls))"

definition site_line :: "relief_site \<Rightarrow> string" where
  "site_line s = site_name s @ '' '' @ show_int (currentCount s) @ '' '' @ show_int (maxCapacity s)"

definition saveReliefSites :: "relief_site clist \<Rightarrow> string list option" where
  "saveReliefSites sites =
     map_option (map site_line) (iter_fold (\<lambda>acc s. acc @ [s]) (nodes sites) (head sites)
       (length (nodes sites)) [])"

subsection \<open>\<open>trim\<close>\<close>

text \<open>
  The index-based \<open>trim\<close> of the code is the reference "strip both ends" function
  (\<open>trim_eq\<close>); the facts the readers need follow from that form.
\<close>

lemma find_upt_first:
  "find (\<lambda>i. s ! i \<notin> set cs) [0..<length s] =
     (if set s \<subseteq> set cs then None else Some (length (takeWhile (\<lambda>c. c \<in> set cs) s)))"
proof (induction s)
  case Nil
  then show ?case by simp
next
  case (Cons c s)
  have "[0..<length (c # s)] = 0 # map Suc [0..<length s]"
    by (simp only: length_Cons map_Suc_upt) (rule upt_conv_Cons, simp)
  then show ?case using Cons by (auto simp: find_map_option comp_def)
qed

lemma find_last_not_of_eq:
  "find_last_not_of s cs =
     (if set s \<subseteq> set cs then None
      else Some (length s - Suc (length (takeWhile (\<lambda>c. c \<in> set cs) (rev s)))))"
proof -
  have "find_last_not_of s cs = map_option (\<lambda>j. length s - Suc j)
          (find (\<lambda>j. rev s ! j \<notin> set cs) [0..<length (rev s)])"
    unfolding find_last_not_of_def rev_upt_map find_map_option
    by (auto intro!: arg_cong[where f = "map_option _"] find_cong_set simp: rev_nth)
  then show ?thesis using find_upt_first [of "rev s" cs] by simp
qed

lemma trim_eq:
  "trim s = rev (dropWhile (\<lambda>c. c \<in> set trim_chars) (rev (dropWhile (\<lambda>c. c \<in> set trim_chars) s)))"
  (is "_ = rev (dropWhile ?W (rev (dropWhile ?W s)))")
proof (cases "set s \<subseteq> set trim_chars")
  case True
  then show ?thesis
    by (auto simp: trim_def find_first_not_of_def find_upt_first dropWhile_eq_Nil_conv dest: set_dropWhileD)
next
  case False
  define A where "A = takeWhile ?W s"
  define R where "R = dropWhile ?W s"
  define M where "M = rev (dropWhile ?W (rev R))"
  define B where "B = rev (takeWhile ?W (rev R))"
  have s: "s = A @ R" by (simp add: A_def R_def)
  have R: "R = M @ B" by (simp add: M_def B_def flip: rev_append)
  have R_ne: "R \<noteq> []" using False by (auto simp: R_def)
  then have hdR: "\<not> ?W (hd R)" unfolding R_def by (rule hd_dropWhile)
  have M_ne: "M \<noteq> []"
    using R_ne hdR by (auto simp: M_def dropWhile_eq_Nil_conv)
  have "dropWhile ?W (rev R) \<noteq> []" using M_ne by (simp add: M_def)
  then have lastM: "\<not> ?W (last M)"
    unfolding M_def last_rev by (rule hd_dropWhile)
  have Bw: "\<forall>x\<in>set (rev B). ?W x" by (auto simp: B_def dest: set_takeWhileD)
  have "rev M = last M # rev (butlast M)" using M_ne by (simp add: rev_eq_Cons_iff)
  then have "rev s = rev B @ (last M # rev (butlast M)) @ rev A"
    using s R by simp
  then have tB: "takeWhile ?W (rev s) = rev B"
    using Bw lastM by (simp add: takeWhile_tail)
  have tA: "takeWhile ?W s = A" by (simp add: A_def)
  have len: "length s = length A + length M + length B" using s R by simp
  have "trim s = substr s (length A) (length s - Suc (length B) - length A + 1)"
    using False tA tB
    by (simp add: trim_def find_first_not_of_def find_upt_first find_last_not_of_eq)
  also have "\<dots> = M" using s R len M_ne by (simp add: substr_def)
  finally show ?thesis by (simp add: M_def R_def)
qed
lemma trim_id:
  assumes "x \<noteq> []" "hd x \<notin> set trim_chars" "last x \<notin> set trim_chars"
  shows "trim x = x"
proof -
  have "dropWhile (\<lambda>c. c \<in> set trim_chars) x = x" using assms(1,2) by (cases x) auto
  moreover have "dropWhile (\<lambda>c. c \<in> set trim_chars) (rev x) = rev x"
    using assms(1,3) by (cases "rev x") (auto simp: hd_rev[symmetric])
  ultimately show ?thesis by (simp add: trim_eq)
qed

lemma trim_hd_last:
  assumes "trim x \<noteq> []"
  shows "hd (trim x) \<notin> set trim_chars" and "last (trim x) \<notin> set trim_chars"
proof -
  define D where "D = dropWhile (\<lambda>c. c \<in> set trim_chars) x"
  define Y where "Y = dropWhile (\<lambda>c. c \<in> set trim_chars) (rev D)"
  have t: "trim x = rev Y" by (simp add: trim_eq D_def Y_def)
  with assms have Y: "Y \<noteq> []" by simp
  then show "last (trim x) \<notin> set trim_chars"
    unfolding t last_rev Y_def by (rule hd_dropWhile)
  have dec: "D = rev Y @ rev (takeWhile (\<lambda>c. c \<in> set trim_chars) (rev D))"
    by (simp add: Y_def flip: rev_append)
  from dec Y have "hd D = hd (rev Y)" by (metis hd_append2 Nil_is_rev_conv)
  then have "hd (trim x) = hd D" using t by simp
  moreover have "D \<noteq> []" using Y by (auto simp: Y_def)
  then have "hd D \<notin> set trim_chars" unfolding D_def by (rule hd_dropWhile)
  ultimately show "hd (trim x) \<notin> set trim_chars" by simp
qed


lemma trim_Nil [simp]: "trim [] = []"
  by (simp add: trim_def find_first_not_of_def)

lemma trim_idem: "trim (trim x) = trim x"
proof (cases "trim x = []")
  case True
  then show ?thesis by simp
next
  case False
  then show ?thesis using trim_hd_last [OF False] by (intro trim_id)
qed
lemma getline_delim_append: "d \<notin> set n \<Longrightarrow> getline_delim d (n @ d # r) = Some (n, r)"
proof -
  assume "d \<notin> set n"
  then have "\<forall>x\<in>set n. x \<noteq> d" by auto
  then show ?thesis by (simp add: getline_delim_def dropWhile_append2 takeWhile_append2)
qed

lemma getline_delim_last: "d \<notin> set s \<Longrightarrow> s \<noteq> [] \<Longrightarrow> getline_delim d s = Some (s, [])"
proof -
  assume "d \<notin> set s" "s \<noteq> []"
  moreover from this(1) have "\<forall>x\<in>set s. x \<noteq> d" by auto
  ultimately show ?thesis by (simp add: getline_delim_def dropWhile_eq_Nil_conv[THEN iffD2])
qed
subsection \<open>Parsers and printers\<close>

lemma set_trim: "set (trim x) \<subseteq> set x"
  using set_dropWhile_subset [of _ x] set_dropWhile_subset [of _ "rev _"] by (fastforce simp: trim_eq)

lemma trim_fixed: "trim x = x \<Longrightarrow> x \<noteq> [] \<Longrightarrow> hd x \<notin> set trim_chars \<and> last x \<notin> set trim_chars"
  using trim_hd_last [of x] by simp

lemma getline_delim_Some:
  "getline_delim d s = Some (f, r) \<Longrightarrow> d \<notin> set f"
  by (auto simp: getline_delim_def split: if_splits dest: set_takeWhileD)

lemma split3_Some:
  "split3 l = Some (n, c, s) \<Longrightarrow> CHR '','' \<notin> set n \<and> CHR '','' \<notin> set c \<and> CHR 0x0A \<notin> set s"
  by (auto simp: split3_def split: option.splits dest!: getline_delim_Some)

lemma split3_line:
  assumes "CHR '','' \<notin> set n" "CHR '','' \<notin> set c" "CHR 0x0A \<notin> set s" "s \<noteq> []"
  shows "split3 (n @ '','' @ c @ '','' @ s) = Some (n, c, s)"
  using assms by (simp add: split3_def getline_delim_append getline_delim_last)

lemma trim_volunteer_line:
  assumes "name v \<noteq> []" "trim (name v) = name v" "skill v \<noteq> []" "trim (skill v) = skill v"
  shows "trim (volunteer_line v) = volunteer_line v"
proof (rule trim_id)
  show "volunteer_line v \<noteq> []" using assms(1) by (simp add: volunteer_line_def)
  show "hd (volunteer_line v) \<notin> set trim_chars"
    using assms(1) trim_fixed [OF assms(2,1)] by (simp add: volunteer_line_def)
  show "last (volunteer_line v) \<notin> set trim_chars"
    using assms(3) trim_fixed [OF assms(4,3)] by (simp add: volunteer_line_def)
qed

lemma parse_volunteer_line_print:
  assumes "name v \<noteq> []" "contact v \<noteq> []" "skill v \<noteq> []"
    and "CHR '','' \<notin> set (name v)" "CHR '','' \<notin> set (contact v)" "CHR 0x0A \<notin> set (skill v)"
    and "trim (name v) = name v" "trim (contact v) = contact v" "trim (skill v) = skill v"
  shows "parse_volunteer_line (volunteer_line v) = Some v \<and> parse_ledger_line (volunteer_line v) = Some v"
proof -
  have t: "trim (volunteer_line v) = volunteer_line v" using assms by (intro trim_volunteer_line)
  have s: "split3 (volunteer_line v) = Some (name v, contact v, skill v)"
    using assms unfolding volunteer_line_def by (intro split3_line)
  have "volunteer_line v \<noteq> []" using assms(1) by (simp add: volunteer_line_def)
  then show ?thesis using assms t s by (simp add: parse_volunteer_line_def parse_ledger_line_def Let_def)
qed

lemma parse_volunteer_lineE:
  assumes "parse_volunteer_line l = Some v"
  shows "name v \<noteq> [] \<and> contact v \<noteq> [] \<and> skill v \<noteq> []
    \<and> CHR '','' \<notin> set (name v) \<and> CHR '','' \<notin> set (contact v) \<and> CHR 0x0A \<notin> set (skill v)
    \<and> trim (name v) = name v \<and> trim (contact v) = contact v \<and> trim (skill v) = skill v"
proof -
  from assms obtain n c s where sp: "split3 (trim l) = Some (n, c, s)"
    and v: "v = \<lparr>name = trim n, contact = trim c, skill = trim s\<rparr>"
    and ne: "trim n \<noteq> []" "trim c \<noteq> []" "trim s \<noteq> []"
    by (auto simp: parse_volunteer_line_def Let_def split: if_splits option.splits)
  from split3_Some [OF sp] set_trim [of n] set_trim [of c] set_trim [of s]
  have "CHR '','' \<notin> set (trim n)" "CHR '','' \<notin> set (trim c)" "CHR 0x0A \<notin> set (trim s)" by auto
  then show ?thesis using v ne by (simp add: trim_idem)
qed

lemma of_char_digit: "k < 10 \<Longrightarrow> (of_char (char_of (48 + k)) :: nat) = 48 + k"
  by (simp add: of_char_of)

lemma show_nat_small: "n < 10 \<Longrightarrow> show_nat n = [char_of (48 + n)]"
  by (simp add: show_nat.simps)

lemma show_nat_big: "\<not> n < 10 \<Longrightarrow> show_nat n = show_nat (n div 10) @ [char_of (48 + n mod 10)]"
  by (simp add: show_nat.simps)

lemma show_nat_digits: "show_nat n \<noteq> [] \<and> (\<forall>c\<in>set (show_nat n). is_digit c)"
proof (induction n rule: show_nat.induct)
  case (1 n)
  then show ?case
    by (cases "n < 10") (auto simp: show_nat_small show_nat_big is_digit_def of_char_digit)
qed

lemma digits_val_snoc: "digits_val (ds @ [c]) = 10 * digits_val ds + (int (of_char c) - 48)"
  by (simp add: digits_val_def)

lemma digits_val_show_nat: "digits_val (show_nat n) = int n"
proof (induction n rule: show_nat.induct)
  case (1 n)
  show ?case
  proof (cases "n < 10")
    case True
    then show ?thesis by (simp add: show_nat_small digits_val_def of_char_digit)
  next
    case False
    then have "show_nat n = show_nat (n div 10) @ [char_of (48 + n mod 10)]" by (rule show_nat_big)
    have "int n = 10 * int (n div 10) + int (n mod 10)" by presburger
    then show ?thesis using 1 False by (simp add: show_nat_big digits_val_snoc of_char_digit)
  qed
qed

lemma is_digit_not_space: "is_digit c \<Longrightarrow> \<not> is_space c"
  by (auto simp: is_digit_def is_space_def)

lemma is_digit_not_sign: "is_digit c \<Longrightarrow> c \<noteq> CHR ''-'' \<and> c \<noteq> CHR ''+''"
  by (auto simp: is_digit_def)

lemma stoi_show_int_app:
  assumes i: "is_int32 i" and j: "j = [] \<or> \<not> is_digit (hd j)"
  shows "stoi (show_int i @ j) = Some i"
proof -
  obtain c cs where sn: "show_nat (nat \<bar>i\<bar>) = c # cs" and d: "\<forall>c\<in>set (c # cs). is_digit c"
    using show_nat_digits [of "nat \<bar>i\<bar>"] by (cases "show_nat (nat \<bar>i\<bar>)") auto
  have tj: "takeWhile is_digit j = []" using j by (cases j) auto
  have tw: "takeWhile is_digit (c # cs @ j) = c # cs" and tw': "takeWhile is_digit (cs @ j) = cs"
    using d tj by (simp_all add: takeWhile_append2)
  have dv: "digits_val (c # cs) = \<bar>i\<bar>" using digits_val_show_nat [of "nat \<bar>i\<bar>"] sn by simp
  show ?thesis
  proof (cases "i < 0")
    case True
    then show ?thesis using sn dv i d by (simp add: show_int_def stoi_def tw tw')
  next
    case False
    then show ?thesis using sn dv i is_digit_not_sign [of c] d by (simp add: show_int_def stoi_def tw tw')
  qed
qed

lemma stoi_show_int: "is_int32 i \<Longrightarrow> stoi (show_int i) = Some i"
  using stoi_show_int_app [of i "[]"] by simp

lemma extract_token_Some: "extract_token s = Some (t, r) \<Longrightarrow> t \<noteq> [] \<and> (\<forall>c\<in>set t. \<not> is_space c)"
proof -
  assume "extract_token s = Some (t, r)"
  then have ne: "dropWhile is_space s \<noteq> []"
    and t: "t = takeWhile (\<lambda>c. \<not> is_space c) (dropWhile is_space s)"
    by (auto simp: extract_token_def Let_def split: if_splits)
  from ne have h: "\<not> is_space (hd (dropWhile is_space s))" by (rule hd_dropWhile)
  from ne obtain x xs where "dropWhile is_space s = x # xs" by (cases "dropWhile is_space s") auto
  with h t show ?thesis by (auto dest: set_takeWhileD)
qed

lemma trim_chars_space: "c \<in> set trim_chars \<Longrightarrow> is_space c"
  by (auto simp: trim_chars_def is_space_def)

lemma extract_token_word:
  assumes "a \<noteq> []" "\<forall>c\<in>set a. \<not> is_space c" "b = [] \<or> is_space (hd b)"
  shows "extract_token (a @ b) = Some (a, b)"
proof -
  have d: "dropWhile is_space (a @ b) = a @ b" using assms(1,2) by (cases a) auto
  have t: "takeWhile (\<lambda>c. \<not> is_space c) b = []" and d': "dropWhile (\<lambda>c. \<not> is_space c) b = b"
    using assms(3) by (cases b; simp)+
  show ?thesis using assms(1,2) d t d' by (simp add: extract_token_def takeWhile_append2 dropWhile_append2)
qed

lemma extract_token_space: "is_space c \<Longrightarrow> extract_token (c # s) = extract_token s"
  by (simp add: extract_token_def)

lemma show_int_token: "show_int i \<noteq> [] \<and> (\<forall>c\<in>set (show_int i). \<not> is_space c) \<and> \<not> is_space (last (show_int i))"
  using show_nat_digits [of "nat (- i)"] show_nat_digits [of "nat i"] is_digit_not_space
  by (auto simp: show_int_def is_space_def)

lemma parse_site_line_tokens:
  assumes "n \<noteq> []" "\<forall>c\<in>set n. \<not> is_space c" "a \<noteq> []" "\<forall>c\<in>set a. \<not> is_space c"
    and "b \<noteq> []" "\<forall>c\<in>set b. \<not> is_space c"
  shows "parse_site_line (n @ '' '' @ a @ '' '' @ b) =
    (case (stoi a, stoi b) of
       (Some cur, Some mx) \<Rightarrow> Some \<lparr>site_name = n, currentCount = cur, maxCapacity = mx\<rparr>
     | _ \<Rightarrow> None)"
proof -
  have sp: "is_space (CHR '' '')" by (simp add: is_space_def)
  have ne: "n @ '' '' @ a @ '' '' @ b \<noteq> []" using assms(1) by simp
  have tr: "trim (n @ '' '' @ a @ '' '' @ b) = n @ '' '' @ a @ '' '' @ b"
  proof (rule trim_id [OF ne])
    show "hd (n @ '' '' @ a @ '' '' @ b) \<notin> set trim_chars"
      using assms(1,2) trim_chars_space by (cases n) auto
    have "\<not> is_space (last b)" using assms(6) last_in_set [OF assms(5)] by blast
    then show "last (n @ '' '' @ a @ '' '' @ b) \<notin> set trim_chars"
      using assms(5) trim_chars_space by auto
  qed
  have e1: "extract_token (n @ '' '' @ a @ '' '' @ b) = Some (n, CHR '' '' # a @ CHR '' '' # b)"
    using assms(1,2) sp by (simp add: extract_token_word)
  have e2: "extract_token (CHR '' '' # a @ CHR '' '' # b) = Some (a, CHR '' '' # b)"
    using assms(3,4) sp by (simp add: extract_token_space extract_token_word)
  have e3: "extract_token (CHR '' '' # b) = Some (b, [])"
    using assms(5,6) sp extract_token_word [of b "[]"] by (simp add: extract_token_space)
  show ?thesis using ne tr e1 e2 e3 by (simp add: parse_site_line_def)
qed

lemma parse_site_line_print:
  assumes "site_name s \<noteq> []" "\<forall>c\<in>set (site_name s). \<not> is_space c"
    and "is_int32 (currentCount s)" "is_int32 (maxCapacity s)"
  shows "parse_site_line (site_line s) = Some s"
  using assms show_int_token [of "currentCount s"] show_int_token [of "maxCapacity s"]
    parse_site_line_tokens [of "site_name s" "show_int (currentCount s)" "show_int (maxCapacity s)"]
  by (simp add: site_line_def stoi_show_int)

lemma parse_site_lineE:
  assumes "parse_site_line l = Some s"
  shows "site_name s \<noteq> [] \<and> (\<forall>c\<in>set (site_name s). \<not> is_space c)
         \<and> is_int32 (currentCount s) \<and> is_int32 (maxCapacity s)"
proof -
  from assms obtain r1 cs ms where e: "extract_token (trim l) = Some (site_name s, r1)"
    and c: "stoi cs = Some (currentCount s)" and m: "stoi ms = Some (maxCapacity s)"
    by (auto simp: parse_site_line_def Let_def split: if_splits option.splits prod.splits)
  from extract_token_Some [OF e] have "site_name s \<noteq> [] \<and> (\<forall>c\<in>set (site_name s). \<not> is_space c)" .
  moreover have "is_int32 (currentCount s)" "is_int32 (maxCapacity s)"
    using c m by (auto simp: stoi_def Let_def split: if_splits prod.splits list.splits)
  ultimately show ?thesis by blast
qed

lemma saveReliefSites_contents: "ll_inv sites \<Longrightarrow> saveReliefSites sites = Some (map site_line (contents sites))"
  by (simp add: saveReliefSites_def ll_inv_iter_fold foldl_snoc_id)

lemma loadReliefSites_contents:
  "ll_inv (loadReliefSites f) \<and>
   contents (loadReliefSites f) = (case f of None \<Rightarrow> [] | Some ls \<Rightarrow> List.map_filter parse_site_line ls)"
  by (cases f) (simp_all add: loadReliefSites_def foldl_push_back ll_inv_empty_clist contents_empty_clist)

lemma load_save_sites:
  assumes "ll_inv sites"
    and "\<forall>s\<in>set (contents sites). site_name s \<noteq> [] \<and> (\<forall>c\<in>set (site_name s). \<not> is_space c)
           \<and> is_int32 (currentCount s) \<and> is_int32 (maxCapacity s)"
  shows "ll_inv (loadReliefSites (saveReliefSites sites))
         \<and> contents (loadReliefSites (saveReliefSites sites)) = contents sites"
  using assms loadReliefSites_contents [of "saveReliefSites sites"]
  by (simp add: saveReliefSites_contents map_filter_map_inverse parse_site_line_print)

lemma isVolunteerDeployed_iff:
  "isVolunteerDeployed v df \<longleftrightarrow>
     (case df of None \<Rightarrow> False | Some ds \<Rightarrow> v \<in> set (List.map_filter parse_ledger_line ds))"
proof -
  have e: "\<And>d. (name d = name v \<and> contact d = contact v \<and> skill d = skill v) \<longleftrightarrow> d = v"
    by auto
  show ?thesis unfolding isVolunteerDeployed_def list_ex_iff e by (simp split: option.splits)
qed

lemma load_volunteers_foldl:
  "vq_inv q \<Longrightarrow> vq_inv (foldl (load_volunteer_step df) q ls) \<and>
     queue_list (foldl (load_volunteer_step df) q ls)
       = queue_list q @ filter (\<lambda>v. \<not> isVolunteerDeployed v df) (List.map_filter parse_volunteer_line ls)"
  by (induction ls arbitrary: q)
     (auto simp: load_volunteer_step_def map_filter_simps enqueue_inv_list split: option.splits)

subsection \<open>Record formats\<close>

text \<open>A volunteer whose fields are non-empty, already trimmed, with no comma in the
  name or the contact and no line break in the skill, is read back unchanged from the line
  that \<^verbatim>\<open>saveVolunteerToFile\<close>/\<^verbatim>\<open>saveDeployedVolunteer\<close> write for it, by the parser of
  \<^verbatim>\<open>loadVolunteersFromFile\<close> and by that of \<^verbatim>\<open>isVolunteerDeployed\<close>.\<close>

theorem volunteer_roundtrip:
  assumes "name v \<noteq> []" "contact v \<noteq> []" "skill v \<noteq> []"
    and "CHR '','' \<notin> set (name v)" "CHR '','' \<notin> set (contact v)" "CHR 0x0A \<notin> set (skill v)"
    and "trim (name v) = name v" "trim (contact v) = contact v" "trim (skill v) = skill v"
  shows "parse_volunteer_line (volunteer_line v) = Some v \<and> parse_ledger_line (volunteer_line v) = Some v"
  using assms by (rule parse_volunteer_line_print)

theorem volunteer_roundtrip_witness:
  "parse_volunteer_line (volunteer_line \<lparr>name = ''Ana'', contact = ''555'', skill = ''medic''\<rparr>) = Some \<lparr>name = ''Ana'', contact = ''555'', skill = ''medic''\<rparr> \<and> parse_ledger_line (volunteer_line \<lparr>name = ''Ana'', contact = ''555'', skill = ''medic''\<rparr>) = Some \<lparr>name = ''Ana'', contact = ''555'', skill = ''medic''\<rparr>"
proof -
  have t: "trim ''Ana'' = ''Ana''" "trim ''555'' = ''555''" "trim ''medic'' = ''medic''" by code_simp+
  show ?thesis using volunteer_roundtrip [of "\<lparr>name = ''Ana'', contact = ''555'', skill = ''medic''\<rparr>"] t by simp
qed

text \<open>Every volunteer that \<^verbatim>\<open>loadVolunteersFromFile\<close> reads from a line is read back
  unchanged from the line written for it: loading, saving and reloading is stable.\<close>

theorem volunteer_line_stable:
  "parse_volunteer_line l = Some v \<Longrightarrow> parse_volunteer_line (volunteer_line v) = Some v"
  using parse_volunteer_lineE parse_volunteer_line_print by blast

theorem volunteer_line_stable_witness:
  "parse_volunteer_line ''  Ana , 555 ,medic '' = Some \<lparr>name = ''Ana'', contact = ''555'', skill = ''medic''\<rparr>
   \<and> parse_volunteer_line (volunteer_line \<lparr>name = ''Ana'', contact = ''555'', skill = ''medic''\<rparr>) = Some \<lparr>name = ''Ana'', contact = ''555'', skill = ''medic''\<rparr>"
proof -
  have h: "parse_volunteer_line ''  Ana , 555 ,medic '' = Some \<lparr>name = ''Ana'', contact = ''555'', skill = ''medic''\<rparr>" by code_simp
  show ?thesis using h volunteer_line_stable [OF h] by blast
qed

lemma parse_ledger_line_commas:
  assumes "parse_ledger_line l = Some v"
  shows "CHR '','' \<notin> set (name v) \<and> CHR '','' \<notin> set (contact v)"
proof -
  from assms obtain n c s where sp: "split3 (trim l) = Some (n, c, s)"
    and v: "v = \<lparr>name = trim n, contact = trim c, skill = trim s\<rparr>"
    by (auto simp: parse_ledger_line_def Let_def split: if_splits option.splits)
  from split3_Some [OF sp] set_trim [of n] set_trim [of c] show ?thesis using v by auto
qed

text \<open>C30: Records are written without escaping, and the readers split a line at its first
  two commas. For every volunteer with non-empty trimmed fields and no line break in the
  skill, the record read back from the registrant file (\<^verbatim>\<open>loadVolunteersFromFile\<close>)
  or from the ledger (\<^verbatim>\<open>isVolunteerDeployed\<close>) is the volunteer written exactly when
  neither the name nor the contact contains a comma; a comma in the skill survives.\<close>

theorem comma_roundtrip_iff:
  assumes "name v \<noteq> []" "contact v \<noteq> []" "skill v \<noteq> []" "CHR 0x0A \<notin> set (skill v)"
    and "trim (name v) = name v" "trim (contact v) = contact v" "trim (skill v) = skill v"
  shows "(parse_volunteer_line (volunteer_line v) = Some v \<longleftrightarrow> CHR '','' \<notin> set (name v) \<and> CHR '','' \<notin> set (contact v))
    \<and> (parse_ledger_line (volunteer_line v) = Some v \<longleftrightarrow> CHR '','' \<notin> set (name v) \<and> CHR '','' \<notin> set (contact v))"
  using assms parse_volunteer_line_print [of v] parse_volunteer_lineE [of "volunteer_line v" v]
    parse_ledger_line_commas [of "volunteer_line v" v]
  by blast

theorem comma_roundtrip_iff_witness:
  "parse_volunteer_line (volunteer_line \<lparr>name = ''Smith, John'', contact = ''555'', skill = ''medic''\<rparr>)
     \<noteq> Some \<lparr>name = ''Smith, John'', contact = ''555'', skill = ''medic''\<rparr>
   \<and> parse_volunteer_line (volunteer_line \<lparr>name = ''Smith, John'', contact = ''555'', skill = ''medic''\<rparr>)
     = Some \<lparr>name = ''Smith'', contact = ''John'', skill = ''555,medic''\<rparr>
   \<and> parse_volunteer_line (volunteer_line \<lparr>name = ''Ana'', contact = ''555'', skill = ''first aid, triage''\<rparr>)
     = Some \<lparr>name = ''Ana'', contact = ''555'', skill = ''first aid, triage''\<rparr>"
proof -
  have t1: "trim ''Smith, John'' = ''Smith, John''" "trim ''555'' = ''555''" "trim ''medic'' = ''medic''"
    "trim ''Ana'' = ''Ana''" "trim ''first aid, triage'' = ''first aid, triage''" by code_simp+
  have a: "parse_volunteer_line (volunteer_line \<lparr>name = ''Smith, John'', contact = ''555'', skill = ''medic''\<rparr>)
     \<noteq> Some \<lparr>name = ''Smith, John'', contact = ''555'', skill = ''medic''\<rparr>"
    using comma_roundtrip_iff [of "\<lparr>name = ''Smith, John'', contact = ''555'', skill = ''medic''\<rparr>"] t1 by simp
  have b: "parse_volunteer_line (volunteer_line \<lparr>name = ''Ana'', contact = ''555'', skill = ''first aid, triage''\<rparr>)
     = Some \<lparr>name = ''Ana'', contact = ''555'', skill = ''first aid, triage''\<rparr>"
    using comma_roundtrip_iff [of "\<lparr>name = ''Ana'', contact = ''555'', skill = ''first aid, triage''\<rparr>"] t1 by simp
  have c: "parse_volunteer_line (volunteer_line \<lparr>name = ''Smith, John'', contact = ''555'', skill = ''medic''\<rparr>)
     = Some \<lparr>name = ''Smith'', contact = ''John'', skill = ''555,medic''\<rparr>" by code_simp
  show ?thesis using a b c by blast
qed

subsection \<open>The site table\<close>

text \<open>Writing a well-formed site list with \<^verbatim>\<open>saveReliefSites\<close> and reading it back
  with \<^verbatim>\<open>loadReliefSites\<close> yields the same \<open>(name, currentCount, maxCapacity)\<close> triples
  in the same order, when every name is non-empty without white space and the counts are
  32-bit values.\<close>

theorem sites_roundtrip:
  assumes "ll_inv sites"
    and "\<forall>s\<in>set (contents sites). site_name s \<noteq> [] \<and> (\<forall>c\<in>set (site_name s). \<not> is_space c)
           \<and> is_int32 (currentCount s) \<and> is_int32 (maxCapacity s)"
  shows "ll_inv (loadReliefSites (saveReliefSites sites))
         \<and> contents (loadReliefSites (saveReliefSites sites)) = contents sites"
  using assms by (rule load_save_sites)

theorem sites_roundtrip_witness:
  "ll_inv (foldl push_back empty_clist [\<lparr>site_name = ''CampA'', currentCount = 9, maxCapacity = 10\<rparr>, \<lparr>site_name = ''CampB'', currentCount = 2, maxCapacity = 10\<rparr>]) \<and>
   list_all (\<lambda>s. site_name s \<noteq> [] \<and> list_all (\<lambda>c. \<not> is_space c) (site_name s)
       \<and> is_int32 (currentCount s) \<and> is_int32 (maxCapacity s)) (contents (foldl push_back empty_clist [\<lparr>site_name = ''CampA'', currentCount = 9, maxCapacity = 10\<rparr>, \<lparr>site_name = ''CampB'', currentCount = 2, maxCapacity = 10\<rparr>]))
   \<and> ll_inv (loadReliefSites (saveReliefSites (foldl push_back empty_clist [\<lparr>site_name = ''CampA'', currentCount = 9, maxCapacity = 10\<rparr>, \<lparr>site_name = ''CampB'', currentCount = 2, maxCapacity = 10\<rparr>])))
   \<and> contents (loadReliefSites (saveReliefSites (foldl push_back empty_clist [\<lparr>site_name = ''CampA'', currentCount = 9, maxCapacity = 10\<rparr>, \<lparr>site_name = ''CampB'', currentCount = 2, maxCapacity = 10\<rparr>]))) = contents (foldl push_back empty_clist [\<lparr>site_name = ''CampA'', currentCount = 9, maxCapacity = 10\<rparr>, \<lparr>site_name = ''CampB'', currentCount = 2, maxCapacity = 10\<rparr>])"
proof -
  have h: "ll_inv (foldl push_back empty_clist [\<lparr>site_name = ''CampA'', currentCount = 9, maxCapacity = 10\<rparr>, \<lparr>site_name = ''CampB'', currentCount = 2, maxCapacity = 10\<rparr>])" by code_simp
  have c: "contents (foldl push_back empty_clist [\<lparr>site_name = ''CampA'', currentCount = 9, maxCapacity = 10\<rparr>, \<lparr>site_name = ''CampB'', currentCount = 2, maxCapacity = 10\<rparr>]) = [\<lparr>site_name = ''CampA'', currentCount = 9, maxCapacity = 10\<rparr>, \<lparr>site_name = ''CampB'', currentCount = 2, maxCapacity = 10\<rparr>]" by code_simp
  have ok: "\<forall>s\<in>set (contents (foldl push_back empty_clist [\<lparr>site_name = ''CampA'', currentCount = 9, maxCapacity = 10\<rparr>, \<lparr>site_name = ''CampB'', currentCount = 2, maxCapacity = 10\<rparr>])). site_name s \<noteq> [] \<and> (\<forall>c\<in>set (site_name s). \<not> is_space c)
       \<and> is_int32 (currentCount s) \<and> is_int32 (maxCapacity s)"
    unfolding c by (simp add: is_space_def is_int32_def int32_min_def int32_max_def)
  show ?thesis using h ok sites_roundtrip [OF h ok] by (simp add: list_all_iff)
qed

text \<open>Whatever the site file holds, the sites \<^verbatim>\<open>loadReliefSites\<close> reads from it are
  written by \<^verbatim>\<open>saveReliefSites\<close> so that reloading gives the same triples in the same order.\<close>

theorem sites_reload_stable:
  "contents (loadReliefSites (saveReliefSites (loadReliefSites f))) = contents (loadReliefSites f)"
proof -
  have "\<forall>s\<in>set (contents (loadReliefSites f)). site_name s \<noteq> [] \<and> (\<forall>c\<in>set (site_name s). \<not> is_space c)
           \<and> is_int32 (currentCount s) \<and> is_int32 (maxCapacity s)"
    using loadReliefSites_contents [of f] parse_site_lineE
    by (auto simp: in_set_map_filter split: option.splits)
  then show ?thesis using load_save_sites loadReliefSites_contents by blast
qed

text \<open>C31: The site loader does not reject malformed numbers. \<^verbatim>\<open>std::stoi\<close> reads an
  optional sign and the leading digits and ignores what follows, so for every site name, every
  pair of 32-bit values (negative ones included) and every suffix \<open>j\<close> without white space
  that does not continue the digits, the line \<open>name count\<close>\<open>j\<close>\<open> capacity\<close> is loaded as the
  site \<open>(name, count, capacity)\<close>: \<open>CampA 12abc -3\<close> gives a site of capacity \<open>-3\<close>. A
  count token that starts with neither a digit nor a sign makes \<^verbatim>\<open>stoi\<close> throw, and the
  line is skipped.\<close>

theorem site_loader_lenient:
  assumes "n \<noteq> []" "\<forall>x\<in>set n. \<not> is_space x" "is_int32 c" "is_int32 m"
    and "\<forall>x\<in>set j. \<not> is_space x" "j = [] \<or> \<not> is_digit (hd j)"
  shows "parse_site_line (n @ '' '' @ (show_int c @ j) @ '' '' @ show_int m)
           = Some \<lparr>site_name = n, currentCount = c, maxCapacity = m\<rparr>
    \<and> (\<forall>t. t \<noteq> [] \<and> (\<forall>x\<in>set t. \<not> is_space x) \<and> \<not> is_digit (hd t) \<and> hd t \<noteq> CHR ''-'' \<and> hd t \<noteq> CHR ''+''
          \<longrightarrow> parse_site_line (n @ '' '' @ t @ '' '' @ show_int m) = None)"
proof -
  have c: "show_int c @ j \<noteq> []" "\<forall>x\<in>set (show_int c @ j). \<not> is_space x"
    using show_int_token [of c] assms(5) by auto
  have m: "show_int m \<noteq> []" "\<forall>x\<in>set (show_int m). \<not> is_space x" using show_int_token [of m] by auto
  have "parse_site_line (n @ '' '' @ (show_int c @ j) @ '' '' @ show_int m)
          = Some \<lparr>site_name = n, currentCount = c, maxCapacity = m\<rparr>"
    using parse_site_line_tokens [OF assms(1,2) c m] stoi_show_int_app [OF assms(3,6)] stoi_show_int [OF assms(4)]
    by simp
  moreover have "parse_site_line (n @ '' '' @ t @ '' '' @ show_int m) = None"
    if "t \<noteq> []" "\<forall>x\<in>set t. \<not> is_space x" "\<not> is_digit (hd t)" "hd t \<noteq> CHR ''-''" "hd t \<noteq> CHR ''+''" for t
  proof -
    have "stoi t = None" using that by (cases t) (auto simp: stoi_def)
    then show ?thesis using parse_site_line_tokens [OF assms(1,2) that(1,2) m] by simp
  qed
  ultimately show ?thesis by blast
qed

theorem site_loader_lenient_witness:
  "parse_site_line ''CampA 12abc -3'' = Some \<lparr>site_name = ''CampA'', currentCount = 12, maxCapacity = -3\<rparr>
   \<and> parse_site_line ''CampB x 10'' = None"
proof -
  have p: "''CampA'' \<noteq> [] \<and> list_all (\<lambda>x. \<not> is_space x) ''CampA'' \<and> is_int32 12 \<and> is_int32 (-3)
     \<and> list_all (\<lambda>x. \<not> is_space x) ''abc'' \<and> \<not> is_digit (hd ''abc'')
     \<and> list_all (\<lambda>x. \<not> is_space x) ''CampB'' \<and> is_int32 10 \<and> list_all (\<lambda>x. \<not> is_space x) ''x''
     \<and> \<not> is_digit (hd ''x'')"
    by (simp add: is_space_def is_digit_def is_int32_def int32_min_def int32_max_def)
  have s: "show_int 12 = ''12''" "show_int (-3) = ''-3''" "show_int 10 = ''10''" by code_simp+
  have a: "parse_site_line (''CampA'' @ '' '' @ (show_int 12 @ ''abc'') @ '' '' @ show_int (-3))
      = Some \<lparr>site_name = ''CampA'', currentCount = 12, maxCapacity = -3\<rparr>"
    using site_loader_lenient [of "''CampA''" 12 "-3" "''abc''"] p by (simp add: list_all_iff)
  have q: "''CampB'' \<noteq> []" "\<forall>x\<in>set ''CampB''. \<not> is_space x" "is_int32 0" "is_int32 10"
    "\<forall>x\<in>set []. \<not> is_space x" "[] = [] \<or> \<not> is_digit (hd [])"
    by (simp_all add: is_space_def is_int32_def int32_min_def int32_max_def)
  have b: "parse_site_line (''CampB'' @ '' '' @ ''x'' @ '' '' @ show_int 10) = None"
    using site_loader_lenient [OF q, THEN conjunct2, rule_format, of "''x''"]
    by (simp add: is_space_def is_digit_def)
  show ?thesis using a b s by simp
qed

subsection \<open>Loading the queue\<close>

text \<open>C8: \<^verbatim>\<open>loadVolunteersFromFile\<close> enqueues, in file order, exactly the volunteers read
  from the registrant file that do not occur in the deployment ledger (structural equality
  of name, contact and skill); the queue stays well formed.\<close>

theorem load_volunteers_dedup:
  "vq_inv q \<Longrightarrow>
     vq_inv (loadVolunteersFromFile q (Some ls) (Some ds)) \<and>
     queue_list (loadVolunteersFromFile q (Some ls) (Some ds))
       = queue_list q @ filter (\<lambda>v. v \<notin> set (List.map_filter parse_ledger_line ds))
                                (List.map_filter parse_volunteer_line ls)"
  using load_volunteers_foldl [of q "Some ds" ls]
  by (simp add: loadVolunteersFromFile_def isVolunteerDeployed_iff)

theorem load_volunteers_dedup_witness:
  "vq_inv vq_init \<and>
   vq_inv (loadVolunteersFromFile vq_init (Some [''Ben,777,driver'']) (Some [])) \<and>
   queue_list (loadVolunteersFromFile vq_init (Some [''Ben,777,driver'']) (Some []))
     = queue_list vq_init @ filter (\<lambda>v. v \<notin> set (List.map_filter parse_ledger_line []))
                                   (List.map_filter parse_volunteer_line [''Ben,777,driver''])"
  using vq_inv_init load_volunteers_dedup [OF vq_inv_init, of "[''Ben,777,driver'']" "[]"] by simp

text \<open>Deduplication example of the specification: with \<open>Ana,555,medic\<close> in the ledger
  and the registrant file holding \<open>Ana,555,medic\<close> and \<open>Ben,777,driver\<close>, the loaded
  queue holds only Ben.\<close>

theorem dedup_ana:
  "queue_list (loadVolunteersFromFile vq_init (Some [''Ana,555,medic'', ''Ben,777,driver''])
      (Some [''Ana,555,medic'']))
   = [\<lparr>name = ''Ben'', contact = ''777'', skill = ''driver''\<rparr>]"
  by code_simp

text \<open>\<^verbatim>\<open>trim\<close>, written with \<^verbatim>\<open>find_first_not_of\<close>, \<^verbatim>\<open>find_last_not_of\<close> and
  \<^verbatim>\<open>substr\<close>, is equivalent to the reference "drop the white space at both ends"; a string
  of white space only (or the empty string) becomes empty.\<close>

theorem trim_reference:
  "trim s = rev (dropWhile (\<lambda>c. c \<in> set trim_chars) (rev (dropWhile (\<lambda>c. c \<in> set trim_chars) s)))"
  by (rule trim_eq)

end
