(* ===== verification/Deploy.thy ===== *)
theory Deploy
  imports Storage
begin

text \<open>
  The deployment orchestrator \<^verbatim>\<open>deployVolunteer\<close> of \<^verbatim>\<open>src/main.cpp\<close>, over the
  program's world: the in-memory queue and the three data
  files (\<^verbatim>\<open>volunteers.txt\<close>, \<^verbatim>\<open>deployed_volunteers.txt\<close>, \<^verbatim>\<open>relief_sites.txt\<close>), each
  a list of lines or \<open>None\<close> when it does not exist. A handler returns the new world, or
  \<open>Inl\<close> for an exception that escapes it (\<^verbatim>\<open>std::out_of_range\<close> is not caught by the
  \<^verbatim>\<open>catch (const std::runtime_error&)\<close> of \<^verbatim>\<open>deployVolunteer\<close>) or a null dereference.
\<close>

record world =
  queue :: vqueue
  volunteers_file :: "string list option"
  ledger_file :: "string list option"
  sites_file :: "string list option"

datatype deploy_outcome =
    No_volunteers
  | Sites_not_loaded
  | All_full
  | No_site_selected
  | Deployment_failed string
  | Deployed volunteer int

definition hasAvailableCapacity :: "relief_site clist \<Rightarrow> bool option" where
  "hasAvailableCapacity sites =
     iter_fold (\<lambda>hasAvailable s. hasAvailable \<or> 0 < wrap32 (maxCapacity s - currentCount s))
       (nodes sites) (head sites) (length (nodes sites)) False"

definition site_inc :: "relief_site \<Rightarrow> relief_site" where
  "site_inc s = s\<lparr>currentCount := wrap32 (currentCount s + 1)\<rparr>"

definition deployVolunteer :: "world \<Rightarrow> exn + deploy_outcome \<times> world" where
  "deployVolunteer w =
     (if is_empty_q (queue w) then Inr (No_volunteers, w)
      else
        (let sites = loadReliefSites (sites_file w) in
         if list_empty sites then Inr (Sites_not_loaded, w)
         else
           (case hasAvailableCapacity sites of
              None \<Rightarrow> Inl Null_deref
            | Some False \<Rightarrow> Inr (All_full, w)
            | Some True \<Rightarrow>
                (case findMostNeededSite sites of
                   None \<Rightarrow> Inl Null_deref
                 | Some bestSiteIndex \<Rightarrow>
                     if bestSiteIndex = -1 then Inr (No_site_selected, w)
                     else
                       (case dequeue (queue w) of
                          Inl (Runtime_error msg) \<Rightarrow> Inr (Deployment_failed msg, w)
                        | Inl e \<Rightarrow> Inl e
                        | Inr (v, q') \<Rightarrow>
                            (case index_modify sites bestSiteIndex site_inc of
                               Inl e \<Rightarrow> Inl e
                             | Inr sites' \<Rightarrow>
                                 (case saveReliefSites sites' of
                                    None \<Rightarrow> Inl Null_deref
                                  | Some f \<Rightarrow>
                                      Inr (Deployed v bestSiteIndex,
                                           w\<lparr>queue := q',
                                             ledger_file := saveDeployedVolunteer v (ledger_file w),
                                             sites_file := Some f\<rparr>))))))))"

text \<open>The site table and the ledger as the next load reads them.\<close>

definition site_list :: "world \<Rightarrow> relief_site list" where
  "site_list w = contents (loadReliefSites (sites_file w))"

definition ledger_vols :: "world \<Rightarrow> volunteer list" where
  "ledger_vols w = (case ledger_file w of None \<Rightarrow> [] | Some ls \<Rightarrow> List.map_filter parse_ledger_line ls)"

subsection \<open>Site selection inside \<^verbatim>\<open>deployVolunteer\<close>\<close>

lemma foldl_or: "foldl (\<lambda>b s. b \<or> P s) b0 xs = (b0 \<or> list_ex P xs)"
  by (induction xs arbitrary: b0) auto

lemma hasAvailableCapacity_contents:
  "ll_inv sites \<Longrightarrow>
     hasAvailableCapacity sites = Some (list_ex (\<lambda>s. 0 < wrap32 (maxCapacity s - currentCount s)) (contents sites))"
  by (simp add: hasAvailableCapacity_def ll_inv_iter_fold foldl_or)

lemma available_qualifies:
  assumes "is_int32 (currentCount s)" "is_int32 (maxCapacity s)" "0 \<le> currentCount s" "qualifies s"
  shows "0 < wrap32 (maxCapacity s - currentCount s)"
proof -
  have "is_int32 (maxCapacity s - currentCount s)"
    using assms by (simp add: is_int32_def int32_min_def int32_max_def qualifies_def)
  then show ?thesis using assms(4) by (simp add: qualifies_def)
qed

lemma loaded_sites_ok:
  "\<forall>s\<in>set (contents (loadReliefSites f)). site_name s \<noteq> [] \<and> (\<forall>c\<in>set (site_name s). \<not> is_space c)
      \<and> is_int32 (currentCount s) \<and> is_int32 (maxCapacity s)"
  using loadReliefSites_contents [of f] parse_site_lineE
  by (auto simp: in_set_map_filter split: option.splits)

lemma deploy_select:
  assumes "\<forall>s\<in>set (site_list w). 0 \<le> currentCount s" and "\<exists>s\<in>set (site_list w). qualifies s"
  shows "hasAvailableCapacity (loadReliefSites (sites_file w)) = Some True"
    and "\<exists>r. findMostNeededSite (loadReliefSites (sites_file w)) = Some r \<and> r \<noteq> -1
            \<and> most_needed (site_list w) r"
proof -
  let ?S = "loadReliefSites (sites_file w)"
  have inv: "ll_inv ?S" using loadReliefSites_contents by blast
  from assms(2) obtain s where s: "s \<in> set (site_list w)" and q: "qualifies s" by blast
  have "0 < wrap32 (maxCapacity s - currentCount s)"
    using loaded_sites_ok [of "sites_file w"] assms(1) s q by (intro available_qualifies) (auto simp: site_list_def)
  then show "hasAvailableCapacity ?S = Some True"
    using s by (auto simp: hasAvailableCapacity_contents [OF inv] list_ex_iff site_list_def)
  let ?r = "snd (snd (foldl fms_step (0, 11 / 10, -1) (contents ?S)))"
  have r: "findMostNeededSite ?S = Some ?r" and m: "most_needed (site_list w) ?r"
    using findMostNeededSite_spec [OF inv] by (simp_all add: site_list_def)
  have "\<not> most_needed (site_list w) (-1)"
    using most_needed_minus_one [OF assms(1)] s q by blast
  with m have "?r \<noteq> -1" by auto
  then show "\<exists>r. findMostNeededSite ?S = Some r \<and> r \<noteq> -1 \<and> most_needed (site_list w) r"
    using r m by blast
qed


lemma site_inc_plus:
  assumes "is_int32 (currentCount s)" "is_int32 (maxCapacity s)" "qualifies s"
  shows "site_inc s = s\<lparr>currentCount := currentCount s + 1\<rparr>"
proof -
  have "is_int32 (currentCount s + 1)"
    using assms by (simp add: is_int32_def int32_min_def int32_max_def qualifies_def)
  then show ?thesis by (simp add: site_inc_def)
qed

lemma site_inc_ok:
  assumes "site_name s \<noteq> [] \<and> (\<forall>c\<in>set (site_name s). \<not> is_space c) \<and> is_int32 (currentCount s) \<and> is_int32 (maxCapacity s)"
    and "qualifies s"
  shows "site_name (site_inc s) \<noteq> [] \<and> (\<forall>c\<in>set (site_name (site_inc s)). \<not> is_space c)
     \<and> is_int32 (currentCount (site_inc s)) \<and> is_int32 (maxCapacity (site_inc s))"
  using assms by (simp add: site_inc_def is_int32_wrap32)

lemma queue_nonempty: "vq_inv q \<Longrightarrow> queue_list q = v # vs \<Longrightarrow> \<not> is_empty_q q"
  by (auto elim!: vq_invE simp: owns_is_empty_q)

lemma deploy_step:
  assumes q: "vq_inv (queue w)" "queue_list (queue w) = v # vs"
    and s: "\<forall>s\<in>set (site_list w). 0 \<le> currentCount s" "\<exists>s\<in>set (site_list w). qualifies s"
  shows "\<exists>i w'. deployVolunteer w = Inr (Deployed v i, w') \<and> most_needed (site_list w) i
    \<and> 0 \<le> i \<and> nat i < length (site_list w)
    \<and> vq_inv (queue w') \<and> queue_list (queue w') = vs
    \<and> ledger_file w' = saveDeployedVolunteer v (ledger_file w)
    \<and> site_list w' = (site_list w)[nat i := (site_list w ! nat i)\<lparr>currentCount := currentCount (site_list w ! nat i) + 1\<rparr>]
    \<and> volunteers_file w' = volunteers_file w"
proof -
  let ?S = "loadReliefSites (sites_file w)"
  let ?xs = "site_list w"
  have inv: "ll_inv ?S" and xs: "contents ?S = ?xs"
    using loadReliefSites_contents by (auto simp: site_list_def)
  obtain r where r: "findMostNeededSite ?S = Some r" "r \<noteq> -1" "most_needed ?xs r"
    using deploy_select(2) [OF s] by blast
  from r(2,3) have r0: "0 \<le> r" "nat r < length ?xs" "qualifies (?xs ! nat r)"
    by (auto simp: most_needed_def)
  have ne: "\<not> is_empty_q (queue w)" using queue_nonempty [OF q] .
  have nl: "\<not> list_empty ?S" using s(2) ll_inv_head [OF inv] xs by (auto simp: list_empty_def)
  obtain q' where d: "dequeue (queue w) = Inr (v, q')" "vq_inv q'" "queue_list q' = vs"
    using dequeue_list [OF q] by blast
  have ri: "r < int (length (contents ?S))" using r0 xs by simp
  obtain S' where m: "index_modify ?S r site_inc = Inr S'" "ll_inv S'"
    "contents S' = ?xs[nat r := site_inc (?xs ! nat r)]"
    using index_modify_in_range [OF inv r0(1) ri, of site_inc] xs by auto
  have okx: "\<forall>s\<in>set ?xs. site_name s \<noteq> [] \<and> (\<forall>c\<in>set (site_name s). \<not> is_space c)
      \<and> is_int32 (currentCount s) \<and> is_int32 (maxCapacity s)"
    using loaded_sites_ok [of "sites_file w"] by (simp add: site_list_def)
  have oki: "site_name (?xs ! nat r) \<noteq> [] \<and> (\<forall>c\<in>set (site_name (?xs ! nat r)). \<not> is_space c)
      \<and> is_int32 (currentCount (?xs ! nat r)) \<and> is_int32 (maxCapacity (?xs ! nat r))"
    using okx nth_mem [OF r0(2)] by blast
  have inc: "site_inc (?xs ! nat r) = (?xs ! nat r)\<lparr>currentCount := currentCount (?xs ! nat r) + 1\<rparr>"
    using oki r0(3) by (intro site_inc_plus) auto
  have okS': "\<forall>s\<in>set (contents S'). site_name s \<noteq> [] \<and> (\<forall>c\<in>set (site_name s). \<not> is_space c)
      \<and> is_int32 (currentCount s) \<and> is_int32 (maxCapacity s)"
    using m(3) okx site_inc_ok [OF oki r0(3)] set_update_subset_insert [of ?xs "nat r"] by auto
  have sv: "saveReliefSites S' = Some (map site_line (contents S'))" by (rule saveReliefSites_contents [OF m(2)])
  have re: "contents (loadReliefSites (Some (map site_line (contents S')))) = contents S'"
    using load_save_sites [OF m(2) okS'] sv by simp
  let ?w' = "w\<lparr>queue := q', ledger_file := saveDeployedVolunteer v (ledger_file w),
                sites_file := Some (map site_line (contents S'))\<rparr>"
  have "deployVolunteer w = Inr (Deployed v r, ?w')"
    using ne nl deploy_select(1) [OF s] r(1,2) d(1) m(1) sv by (simp add: deployVolunteer_def)
  moreover have "site_list ?w' = ?xs[nat r := (?xs ! nat r)\<lparr>currentCount := currentCount (?xs ! nat r) + 1\<rparr>]"
    using re m(3) inc by (simp add: site_list_def)
  ultimately show ?thesis using r(3) r0 d(2,3) by fastforce
qed


lemma is_empty_q_list: "vq_inv q \<Longrightarrow> is_empty_q q \<longleftrightarrow> queue_list q = []"
proof -
  assume "vq_inv q"
  then obtain as where "owns (qnodes q) (qhead q) (qtail q) as" and "queue_list q = vals (qnodes q) as"
    by (rule vq_invE)
  then show ?thesis by (simp add: owns_is_empty_q)
qed

lemma deploy_total:
  assumes q: "vq_inv (queue w)"
  shows "\<exists>out w'. deployVolunteer w = Inr (out, w') \<and> (\<forall>msg. out \<noteq> Deployment_failed msg)
           \<and> vq_inv (queue w')"
proof (cases "is_empty_q (queue w)")
  case True
  then show ?thesis using q by (simp add: deployVolunteer_def)
next
  case ne: False
  let ?S = "loadReliefSites (sites_file w)"
  have inv: "ll_inv ?S" using loadReliefSites_contents by blast
  obtain b where hb: "hasAvailableCapacity ?S = Some b"
    by (simp add: hasAvailableCapacity_contents [OF inv])
  let ?r = "snd (snd (foldl fms_step (0, 11 / 10, -1) (contents ?S)))"
  have r: "findMostNeededSite ?S = Some ?r" and m: "most_needed (contents ?S) ?r"
    using findMostNeededSite_spec [OF inv] by blast+
  show ?thesis
  proof (cases "list_empty ?S \<or> \<not> b \<or> ?r = -1")
    case True
    then show ?thesis using ne hb r q by (cases b) (auto simp: deployVolunteer_def Let_def)
  next
    case False
    then have nl: "\<not> list_empty ?S" and b: b and r1: "?r \<noteq> -1" by auto
    from m r1 have r0: "0 \<le> ?r" "?r < int (length (contents ?S))" by (auto simp: most_needed_def)
    from ne q obtain v vs where l: "queue_list (queue w) = v # vs"
      by (cases "queue_list (queue w)") (auto simp: is_empty_q_list)
    obtain q' where d: "dequeue (queue w) = Inr (v, q')" "vq_inv q'" using dequeue_list [OF q l] by blast
    obtain S' where mS: "index_modify ?S ?r site_inc = Inr S'" "ll_inv S'"
      using index_modify_in_range [OF inv r0, of site_inc] by blast
    have sv: "saveReliefSites S' = Some (map site_line (contents S'))" by (rule saveReliefSites_contents [OF mS(2)])
    have "deployVolunteer w = Inr (Deployed v ?r, w\<lparr>queue := q', ledger_file := saveDeployedVolunteer v (ledger_file w),
             sites_file := Some (map site_line (contents S'))\<rparr>)"
      using ne nl hb b r r1 d(1) mS(1) sv by (simp add: deployVolunteer_def)
    then show ?thesis using d(2) by auto
  qed
qed

lemma available_nonneg:
  assumes "0 \<le> currentCount s" "0 \<le> maxCapacity s" "is_int32 (currentCount s)" "is_int32 (maxCapacity s)"
  shows "0 < wrap32 (maxCapacity s - currentCount s) \<longleftrightarrow> qualifies s"
proof -
  have "is_int32 (maxCapacity s - currentCount s)"
    using assms by (simp add: is_int32_def int32_min_def int32_max_def)
  then show ?thesis by (simp add: qualifies_def)
qed

lemma deploy_all_full_step:
  assumes "\<not> is_empty_q (queue w)" "site_list w \<noteq> []"
    and "\<forall>s\<in>set (site_list w). 0 \<le> currentCount s \<and> 0 \<le> maxCapacity s \<and> \<not> qualifies s"
  shows "deployVolunteer w = Inr (All_full, w)"
proof -
  let ?S = "loadReliefSites (sites_file w)"
  have inv: "ll_inv ?S" and xs: "contents ?S = site_list w"
    using loadReliefSites_contents by (auto simp: site_list_def)
  have nl: "\<not> list_empty ?S" using assms(2) ll_inv_head [OF inv] xs by (auto simp: list_empty_def)
  have "\<forall>s\<in>set (site_list w). \<not> 0 < wrap32 (maxCapacity s - currentCount s)"
    using assms(3) loaded_sites_ok [of "sites_file w"] available_nonneg by (auto simp: site_list_def)
  then have "hasAvailableCapacity ?S = Some False"
    using xs by (simp add: hasAvailableCapacity_contents [OF inv] list_ex_iff)
  then show ?thesis using assms(1) nl by (simp add: deployVolunteer_def)
qed

lemma deploy_sites_missing_step:
  "\<not> is_empty_q (queue w) \<Longrightarrow> site_list w = [] \<Longrightarrow> deployVolunteer w = Inr (Sites_not_loaded, w)"
  using loadReliefSites_contents [of "sites_file w"] ll_inv_head [of "loadReliefSites (sites_file w)"]
  by (simp add: deployVolunteer_def site_list_def list_empty_def)


lemma deploy_cases:
  "deployVolunteer w = Inr (out, w') \<Longrightarrow>
     (\<exists>v i. out = Deployed v i \<and> dequeue (queue w) = Inr (v, queue w')
        \<and> ledger_file w' = saveDeployedVolunteer v (ledger_file w)) \<or> (w' = w \<and> (\<forall>v i. out \<noteq> Deployed v i))"
  by (auto simp: deployVolunteer_def Let_def
           split: if_splits option.splits sum.splits prod.splits bool.splits exn.splits)

subsection \<open>\<^verbatim>\<open>deployVolunteer\<close>\<close>



text \<open>C2: Deployment invariant: after a successful deployment the queue's \<^verbatim>\<open>size()\<close> has
  decreased by exactly one, exactly one site's \<^verbatim>\<open>currentCount\<close> has increased by exactly one
  and every other site is unchanged, and \<^verbatim>\<open>currentCount \<le> maxCapacity\<close> still holds for
  every site if it held before.\<close>

theorem deploy_invariant:
  assumes "vq_inv (queue w)" "queue_list (queue w) = v # vs"
    and "\<forall>s\<in>set (site_list w). 0 \<le> currentCount s \<and> currentCount s \<le> maxCapacity s"
    and "\<exists>s\<in>set (site_list w). qualifies s"
  shows "\<exists>i w'. deployVolunteer w = Inr (Deployed v i, w')
    \<and> queue_size (queue w) = Some (int (length vs) + 1) \<and> queue_size (queue w') = Some (int (length vs))
    \<and> length (site_list w') = length (site_list w)
    \<and> (\<forall>j < length (site_list w). j \<noteq> nat i \<longrightarrow> site_list w' ! j = site_list w ! j)
    \<and> currentCount (site_list w' ! nat i) = currentCount (site_list w ! nat i) + 1
    \<and> site_name (site_list w' ! nat i) = site_name (site_list w ! nat i)
    \<and> maxCapacity (site_list w' ! nat i) = maxCapacity (site_list w ! nat i)
    \<and> (\<forall>s\<in>set (site_list w'). currentCount s \<le> maxCapacity s)"
proof -
  have nn: "\<forall>s\<in>set (site_list w). 0 \<le> currentCount s" using assms(3) by blast
  obtain i w' where d: "deployVolunteer w = Inr (Deployed v i, w')" and m: "most_needed (site_list w) i"
    and i: "0 \<le> i" "nat i < length (site_list w)" and q': "vq_inv (queue w')" "queue_list (queue w') = vs"
    and sl: "site_list w' = (site_list w)[nat i := (site_list w ! nat i)\<lparr>currentCount := currentCount (site_list w ! nat i) + 1\<rparr>]"
    using deploy_step [OF assms(1,2) nn assms(4)] by blast
  have qi: "qualifies (site_list w ! nat i)" using m i by (auto simp: most_needed_def)
  have "\<forall>s\<in>set (site_list w'). currentCount s \<le> maxCapacity s"
    using sl assms(3) qi set_update_subset_insert [of "site_list w" "nat i"] by (fastforce simp: qualifies_def)
  then show ?thesis using d i q' sl assms(1,2) by (simp add: queue_size_inv nth_list_update)
qed

theorem deploy_invariant_witness:
  "vq_inv (queue \<lparr>queue = enqueue vq_init \<lparr>name = ''Ana'', contact = ''555'', skill = ''medic''\<rparr>, volunteers_file = None, ledger_file = Some [], sites_file = Some [''A 9 10'', ''B 2 10'']\<rparr>) \<and> queue_list (queue \<lparr>queue = enqueue vq_init \<lparr>name = ''Ana'', contact = ''555'', skill = ''medic''\<rparr>, volunteers_file = None, ledger_file = Some [], sites_file = Some [''A 9 10'', ''B 2 10'']\<rparr>) = [\<lparr>name = ''Ana'', contact = ''555'', skill = ''medic''\<rparr>]
   \<and> list_all (\<lambda>s. 0 \<le> currentCount s \<and> currentCount s \<le> maxCapacity s) (site_list \<lparr>queue = enqueue vq_init \<lparr>name = ''Ana'', contact = ''555'', skill = ''medic''\<rparr>, volunteers_file = None, ledger_file = Some [], sites_file = Some [''A 9 10'', ''B 2 10'']\<rparr>) \<and> list_ex qualifies (site_list \<lparr>queue = enqueue vq_init \<lparr>name = ''Ana'', contact = ''555'', skill = ''medic''\<rparr>, volunteers_file = None, ledger_file = Some [], sites_file = Some [''A 9 10'', ''B 2 10'']\<rparr>)
   \<and> (\<exists>i w'. deployVolunteer \<lparr>queue = enqueue vq_init \<lparr>name = ''Ana'', contact = ''555'', skill = ''medic''\<rparr>, volunteers_file = None, ledger_file = Some [], sites_file = Some [''A 9 10'', ''B 2 10'']\<rparr> = Inr (Deployed \<lparr>name = ''Ana'', contact = ''555'', skill = ''medic''\<rparr> i, w')
    \<and> queue_size (queue \<lparr>queue = enqueue vq_init \<lparr>name = ''Ana'', contact = ''555'', skill = ''medic''\<rparr>, volunteers_file = None, ledger_file = Some [], sites_file = Some [''A 9 10'', ''B 2 10'']\<rparr>) = Some (int (length ([]::volunteer list)) + 1) \<and> queue_size (queue w') = Some (int (length ([]::volunteer list)))
    \<and> length (site_list w') = length (site_list \<lparr>queue = enqueue vq_init \<lparr>name = ''Ana'', contact = ''555'', skill = ''medic''\<rparr>, volunteers_file = None, ledger_file = Some [], sites_file = Some [''A 9 10'', ''B 2 10'']\<rparr>)
    \<and> (\<forall>j < length (site_list \<lparr>queue = enqueue vq_init \<lparr>name = ''Ana'', contact = ''555'', skill = ''medic''\<rparr>, volunteers_file = None, ledger_file = Some [], sites_file = Some [''A 9 10'', ''B 2 10'']\<rparr>). j \<noteq> nat i \<longrightarrow> site_list w' ! j = site_list \<lparr>queue = enqueue vq_init \<lparr>name = ''Ana'', contact = ''555'', skill = ''medic''\<rparr>, volunteers_file = None, ledger_file = Some [], sites_file = Some [''A 9 10'', ''B 2 10'']\<rparr> ! j)
    \<and> currentCount (site_list w' ! nat i) = currentCount (site_list \<lparr>queue = enqueue vq_init \<lparr>name = ''Ana'', contact = ''555'', skill = ''medic''\<rparr>, volunteers_file = None, ledger_file = Some [], sites_file = Some [''A 9 10'', ''B 2 10'']\<rparr> ! nat i) + 1
    \<and> site_name (site_list w' ! nat i) = site_name (site_list \<lparr>queue = enqueue vq_init \<lparr>name = ''Ana'', contact = ''555'', skill = ''medic''\<rparr>, volunteers_file = None, ledger_file = Some [], sites_file = Some [''A 9 10'', ''B 2 10'']\<rparr> ! nat i)
    \<and> maxCapacity (site_list w' ! nat i) = maxCapacity (site_list \<lparr>queue = enqueue vq_init \<lparr>name = ''Ana'', contact = ''555'', skill = ''medic''\<rparr>, volunteers_file = None, ledger_file = Some [], sites_file = Some [''A 9 10'', ''B 2 10'']\<rparr> ! nat i)
    \<and> (\<forall>s\<in>set (site_list w'). currentCount s \<le> maxCapacity s))"
proof -
  have q: "vq_inv (queue \<lparr>queue = enqueue vq_init \<lparr>name = ''Ana'', contact = ''555'', skill = ''medic''\<rparr>, volunteers_file = None, ledger_file = Some [], sites_file = Some [''A 9 10'', ''B 2 10'']\<rparr>)" and l: "queue_list (queue \<lparr>queue = enqueue vq_init \<lparr>name = ''Ana'', contact = ''555'', skill = ''medic''\<rparr>, volunteers_file = None, ledger_file = Some [], sites_file = Some [''A 9 10'', ''B 2 10'']\<rparr>) = \<lparr>name = ''Ana'', contact = ''555'', skill = ''medic''\<rparr> # []"
    using enqueue_inv_list [OF vq_inv_init, of "\<lparr>name = ''Ana'', contact = ''555'', skill = ''medic''\<rparr>"] by (simp_all add: queue_list_init)
  have s: "\<forall>s\<in>set (site_list \<lparr>queue = enqueue vq_init \<lparr>name = ''Ana'', contact = ''555'', skill = ''medic''\<rparr>, volunteers_file = None, ledger_file = Some [], sites_file = Some [''A 9 10'', ''B 2 10'']\<rparr>). 0 \<le> currentCount s \<and> currentCount s \<le> maxCapacity s" by code_simp
  have e: "\<exists>s\<in>set (site_list \<lparr>queue = enqueue vq_init \<lparr>name = ''Ana'', contact = ''555'', skill = ''medic''\<rparr>, volunteers_file = None, ledger_file = Some [], sites_file = Some [''A 9 10'', ''B 2 10'']\<rparr>). qualifies s" by code_simp
  have r: "\<exists>i w'. deployVolunteer \<lparr>queue = enqueue vq_init \<lparr>name = ''Ana'', contact = ''555'', skill = ''medic''\<rparr>, volunteers_file = None, ledger_file = Some [], sites_file = Some [''A 9 10'', ''B 2 10'']\<rparr> = Inr (Deployed \<lparr>name = ''Ana'', contact = ''555'', skill = ''medic''\<rparr> i, w')
    \<and> queue_size (queue \<lparr>queue = enqueue vq_init \<lparr>name = ''Ana'', contact = ''555'', skill = ''medic''\<rparr>, volunteers_file = None, ledger_file = Some [], sites_file = Some [''A 9 10'', ''B 2 10'']\<rparr>) = Some (int (length ([]::volunteer list)) + 1) \<and> queue_size (queue w') = Some (int (length ([]::volunteer list)))
    \<and> length (site_list w') = length (site_list \<lparr>queue = enqueue vq_init \<lparr>name = ''Ana'', contact = ''555'', skill = ''medic''\<rparr>, volunteers_file = None, ledger_file = Some [], sites_file = Some [''A 9 10'', ''B 2 10'']\<rparr>)
    \<and> (\<forall>j < length (site_list \<lparr>queue = enqueue vq_init \<lparr>name = ''Ana'', contact = ''555'', skill = ''medic''\<rparr>, volunteers_file = None, ledger_file = Some [], sites_file = Some [''A 9 10'', ''B 2 10'']\<rparr>). j \<noteq> nat i \<longrightarrow> site_list w' ! j = site_list \<lparr>queue = enqueue vq_init \<lparr>name = ''Ana'', contact = ''555'', skill = ''medic''\<rparr>, volunteers_file = None, ledger_file = Some [], sites_file = Some [''A 9 10'', ''B 2 10'']\<rparr> ! j)
    \<and> currentCount (site_list w' ! nat i) = currentCount (site_list \<lparr>queue = enqueue vq_init \<lparr>name = ''Ana'', contact = ''555'', skill = ''medic''\<rparr>, volunteers_file = None, ledger_file = Some [], sites_file = Some [''A 9 10'', ''B 2 10'']\<rparr> ! nat i) + 1
    \<and> site_name (site_list w' ! nat i) = site_name (site_list \<lparr>queue = enqueue vq_init \<lparr>name = ''Ana'', contact = ''555'', skill = ''medic''\<rparr>, volunteers_file = None, ledger_file = Some [], sites_file = Some [''A 9 10'', ''B 2 10'']\<rparr> ! nat i)
    \<and> maxCapacity (site_list w' ! nat i) = maxCapacity (site_list \<lparr>queue = enqueue vq_init \<lparr>name = ''Ana'', contact = ''555'', skill = ''medic''\<rparr>, volunteers_file = None, ledger_file = Some [], sites_file = Some [''A 9 10'', ''B 2 10'']\<rparr> ! nat i)
    \<and> (\<forall>s\<in>set (site_list w'). currentCount s \<le> maxCapacity s)"
    by (rule deploy_invariant [OF q l s e])
  show ?thesis using q l s e r by (simp add: list_all_iff list_ex_iff)
qed

text \<open>C11: With an empty queue \<^verbatim>\<open>deployVolunteer\<close> reports that no volunteer is available
  and changes nothing: the site table and the ledger are not touched.\<close>

theorem deploy_no_volunteers:
  "vq_inv (queue w) \<Longrightarrow> queue_list (queue w) = [] \<Longrightarrow> deployVolunteer w = Inr (No_volunteers, w)"
  by (simp add: is_empty_q_list deployVolunteer_def)

theorem deploy_no_volunteers_witness:
  "vq_inv (queue \<lparr>queue = vq_init, volunteers_file = None, ledger_file = Some [], sites_file = Some [''A 9 10'']\<rparr>) \<and> queue_list (queue \<lparr>queue = vq_init, volunteers_file = None, ledger_file = Some [], sites_file = Some [''A 9 10'']\<rparr>) = [] \<and> deployVolunteer \<lparr>queue = vq_init, volunteers_file = None, ledger_file = Some [], sites_file = Some [''A 9 10'']\<rparr> = Inr (No_volunteers, \<lparr>queue = vq_init, volunteers_file = None, ledger_file = Some [], sites_file = Some [''A 9 10'']\<rparr>)"
  using vq_inv_init queue_list_init deploy_no_volunteers [of "\<lparr>queue = vq_init, volunteers_file = None, ledger_file = Some [], sites_file = Some [''A 9 10'']\<rparr>"] by simp

text \<open>C10: When every site is full (counts non-negative, none with
  \<^verbatim>\<open>currentCount < maxCapacity\<close>), \<^verbatim>\<open>deployVolunteer\<close> reports that all sites are at
  capacity and changes nothing: the volunteer stays queued, since the check comes before
  the dequeue.\<close>

theorem deploy_all_full:
  assumes "vq_inv (queue w)" "queue_list (queue w) \<noteq> []" "site_list w \<noteq> []"
    and "\<forall>s\<in>set (site_list w). 0 \<le> currentCount s \<and> 0 \<le> maxCapacity s \<and> \<not> qualifies s"
  shows "deployVolunteer w = Inr (All_full, w)"
  using assms by (simp add: deploy_all_full_step is_empty_q_list)

theorem deploy_all_full_witness:
  "vq_inv (queue \<lparr>queue = enqueue vq_init \<lparr>name = ''Ana'', contact = ''555'', skill = ''medic''\<rparr>, volunteers_file = None, ledger_file = Some [], sites_file = Some [''A 10 10'', ''B 5 5'']\<rparr>) \<and> queue_list (queue \<lparr>queue = enqueue vq_init \<lparr>name = ''Ana'', contact = ''555'', skill = ''medic''\<rparr>, volunteers_file = None, ledger_file = Some [], sites_file = Some [''A 10 10'', ''B 5 5'']\<rparr>) \<noteq> [] \<and> site_list \<lparr>queue = enqueue vq_init \<lparr>name = ''Ana'', contact = ''555'', skill = ''medic''\<rparr>, volunteers_file = None, ledger_file = Some [], sites_file = Some [''A 10 10'', ''B 5 5'']\<rparr> \<noteq> []
   \<and> list_all (\<lambda>s. 0 \<le> currentCount s \<and> 0 \<le> maxCapacity s \<and> \<not> qualifies s) (site_list \<lparr>queue = enqueue vq_init \<lparr>name = ''Ana'', contact = ''555'', skill = ''medic''\<rparr>, volunteers_file = None, ledger_file = Some [], sites_file = Some [''A 10 10'', ''B 5 5'']\<rparr>)
   \<and> deployVolunteer \<lparr>queue = enqueue vq_init \<lparr>name = ''Ana'', contact = ''555'', skill = ''medic''\<rparr>, volunteers_file = None, ledger_file = Some [], sites_file = Some [''A 10 10'', ''B 5 5'']\<rparr> = Inr (All_full, \<lparr>queue = enqueue vq_init \<lparr>name = ''Ana'', contact = ''555'', skill = ''medic''\<rparr>, volunteers_file = None, ledger_file = Some [], sites_file = Some [''A 10 10'', ''B 5 5'']\<rparr>)"
proof -
  have q: "vq_inv (queue \<lparr>queue = enqueue vq_init \<lparr>name = ''Ana'', contact = ''555'', skill = ''medic''\<rparr>, volunteers_file = None, ledger_file = Some [], sites_file = Some [''A 10 10'', ''B 5 5'']\<rparr>)" and l: "queue_list (queue \<lparr>queue = enqueue vq_init \<lparr>name = ''Ana'', contact = ''555'', skill = ''medic''\<rparr>, volunteers_file = None, ledger_file = Some [], sites_file = Some [''A 10 10'', ''B 5 5'']\<rparr>) \<noteq> []"
    using enqueue_inv_list [OF vq_inv_init, of "\<lparr>name = ''Ana'', contact = ''555'', skill = ''medic''\<rparr>"] by (simp_all add: queue_list_init)
  have n: "site_list \<lparr>queue = enqueue vq_init \<lparr>name = ''Ana'', contact = ''555'', skill = ''medic''\<rparr>, volunteers_file = None, ledger_file = Some [], sites_file = Some [''A 10 10'', ''B 5 5'']\<rparr> \<noteq> []" by code_simp
  have s: "\<forall>s\<in>set (site_list \<lparr>queue = enqueue vq_init \<lparr>name = ''Ana'', contact = ''555'', skill = ''medic''\<rparr>, volunteers_file = None, ledger_file = Some [], sites_file = Some [''A 10 10'', ''B 5 5'']\<rparr>). 0 \<le> currentCount s \<and> 0 \<le> maxCapacity s \<and> \<not> qualifies s" by code_simp
  show ?thesis using q l n s deploy_all_full [OF q l n s] by (simp add: list_all_iff)
qed

text \<open>When the site table is missing or holds no valid site, \<^verbatim>\<open>deployVolunteer\<close>
  reports that the sites could not be loaded and changes nothing.\<close>

theorem deploy_sites_missing:
  "vq_inv (queue w) \<Longrightarrow> queue_list (queue w) \<noteq> [] \<Longrightarrow> site_list w = [] \<Longrightarrow>
     deployVolunteer w = Inr (Sites_not_loaded, w)"
  by (simp add: deploy_sites_missing_step is_empty_q_list)

theorem deploy_sites_missing_witness:
  "vq_inv (queue \<lparr>queue = enqueue vq_init \<lparr>name = ''Ana'', contact = ''555'', skill = ''medic''\<rparr>, volunteers_file = None, ledger_file = Some [], sites_file = None\<rparr>) \<and> queue_list (queue \<lparr>queue = enqueue vq_init \<lparr>name = ''Ana'', contact = ''555'', skill = ''medic''\<rparr>, volunteers_file = None, ledger_file = Some [], sites_file = None\<rparr>) \<noteq> [] \<and> site_list \<lparr>queue = enqueue vq_init \<lparr>name = ''Ana'', contact = ''555'', skill = ''medic''\<rparr>, volunteers_file = None, ledger_file = Some [], sites_file = None\<rparr> = []
   \<and> deployVolunteer \<lparr>queue = enqueue vq_init \<lparr>name = ''Ana'', contact = ''555'', skill = ''medic''\<rparr>, volunteers_file = None, ledger_file = Some [], sites_file = None\<rparr> = Inr (Sites_not_loaded, \<lparr>queue = enqueue vq_init \<lparr>name = ''Ana'', contact = ''555'', skill = ''medic''\<rparr>, volunteers_file = None, ledger_file = Some [], sites_file = None\<rparr>)"
proof -
  have q: "vq_inv (queue \<lparr>queue = enqueue vq_init \<lparr>name = ''Ana'', contact = ''555'', skill = ''medic''\<rparr>, volunteers_file = None, ledger_file = Some [], sites_file = None\<rparr>)" and l: "queue_list (queue \<lparr>queue = enqueue vq_init \<lparr>name = ''Ana'', contact = ''555'', skill = ''medic''\<rparr>, volunteers_file = None, ledger_file = Some [], sites_file = None\<rparr>) \<noteq> []"
    using enqueue_inv_list [OF vq_inv_init, of "\<lparr>name = ''Ana'', contact = ''555'', skill = ''medic''\<rparr>"] by (simp_all add: queue_list_init)
  have n: "site_list \<lparr>queue = enqueue vq_init \<lparr>name = ''Ana'', contact = ''555'', skill = ''medic''\<rparr>, volunteers_file = None, ledger_file = Some [], sites_file = None\<rparr> = []" by code_simp
  show ?thesis using q l n deploy_sites_missing [OF q l n] by simp
qed

text \<open>C7: On a well-formed queue, \<^verbatim>\<open>deployVolunteer\<close> never lets an exception escape and
  never dereferences a null pointer, whatever the site file holds: the selected index is
  always valid for \<^verbatim>\<open>operator[]\<close>, the \<^verbatim>\<open>catch\<close> branch for \<^verbatim>\<open>runtime_error\<close> is never
  taken, and the queue stays well formed.\<close>

theorem deploy_never_throws:
  "vq_inv (queue w) \<Longrightarrow>
     \<exists>out w'. deployVolunteer w = Inr (out, w') \<and> (\<forall>msg. out \<noteq> Deployment_failed msg) \<and> vq_inv (queue w')"
  by (rule deploy_total)

theorem deploy_never_throws_witness:
  "vq_inv (queue \<lparr>queue = enqueue vq_init \<lparr>name = ''Ana'', contact = ''555'', skill = ''medic''\<rparr>, volunteers_file = None, ledger_file = Some [], sites_file = Some [''X -2147483648 1'']\<rparr>) \<and>
   (\<exists>out w'. deployVolunteer \<lparr>queue = enqueue vq_init \<lparr>name = ''Ana'', contact = ''555'', skill = ''medic''\<rparr>, volunteers_file = None, ledger_file = Some [], sites_file = Some [''X -2147483648 1'']\<rparr> = Inr (out, w') \<and> (\<forall>msg. out \<noteq> Deployment_failed msg) \<and> vq_inv (queue w'))"
proof -
  have q: "vq_inv (queue \<lparr>queue = enqueue vq_init \<lparr>name = ''Ana'', contact = ''555'', skill = ''medic''\<rparr>, volunteers_file = None, ledger_file = Some [], sites_file = Some [''X -2147483648 1'']\<rparr>)" using enqueue_inv_list [OF vq_inv_init, of "\<lparr>name = ''Ana'', contact = ''555'', skill = ''medic''\<rparr>"] by simp
  show ?thesis using q deploy_never_throws [OF q] by blast
qed

text \<open>End-to-end scenario of the specification: with \<open>\<lparr>name = ''Ana'', contact = ''555'', skill = ''medic''\<rparr>\<close> queued and the sites
  \<open>A 9/10\<close>, \<open>B 2/10\<close>, \<^verbatim>\<open>deployVolunteer\<close> selects \<open>B\<close> (index 1, ratio 0.2 < 0.9), dequeues
  \<open>\<lparr>name = ''Ana'', contact = ''555'', skill = ''medic''\<rparr>\<close>, writes the table \<open>A 9 10\<close>, \<open>B 3 10\<close>, leaves the queue empty and appends \<open>\<lparr>name = ''Ana'', contact = ''555'', skill = ''medic''\<rparr>\<close>
  to the ledger.\<close>

theorem deploy_end_to_end:
  "(case deployVolunteer \<lparr>queue = enqueue vq_init \<lparr>name = ''Ana'', contact = ''555'', skill = ''medic''\<rparr>, volunteers_file = None, ledger_file = Some [], sites_file = Some [''A 9 10'', ''B 2 10'']\<rparr> of
      Inr (Deployed v i, w') \<Rightarrow>
        v = \<lparr>name = ''Ana'', contact = ''555'', skill = ''medic''\<rparr> \<and> i = 1 \<and> sites_file w' = Some [''A 9 10'', ''B 3 10''] \<and> queue_list (queue w') = []
        \<and> ledger_vols w' = [\<lparr>name = ''Ana'', contact = ''555'', skill = ''medic''\<rparr>]
    | _ \<Rightarrow> False)"
  by code_simp

text \<open>C19: On counts that are non-negative 32-bit values, the capacity pre-check of
  \<^verbatim>\<open>deployVolunteer\<close> (\<^verbatim>\<open>maxCapacity - currentCount > 0\<close> for some site) is equivalent to
  the matcher's test: some site has \<^verbatim>\<open>currentCount < maxCapacity\<close>.\<close>

theorem capacity_check_equiv:
  assumes "ll_inv sites"
    and "\<forall>s\<in>set (contents sites). 0 \<le> currentCount s \<and> 0 \<le> maxCapacity s
           \<and> is_int32 (currentCount s) \<and> is_int32 (maxCapacity s)"
  shows "hasAvailableCapacity sites = Some (list_ex qualifies (contents sites))"
  using assms available_nonneg by (simp add: hasAvailableCapacity_contents list_ex_iff)

theorem capacity_check_equiv_witness:
  "ll_inv (foldl push_back empty_clist [\<lparr>site_name = ''A'', currentCount = 9, maxCapacity = 10\<rparr>, \<lparr>site_name = ''B'', currentCount = 2, maxCapacity = 10\<rparr>]) \<and> list_all (\<lambda>s. 0 \<le> currentCount s \<and> 0 \<le> maxCapacity s
           \<and> is_int32 (currentCount s) \<and> is_int32 (maxCapacity s)) (contents (foldl push_back empty_clist [\<lparr>site_name = ''A'', currentCount = 9, maxCapacity = 10\<rparr>, \<lparr>site_name = ''B'', currentCount = 2, maxCapacity = 10\<rparr>]))
   \<and> hasAvailableCapacity (foldl push_back empty_clist [\<lparr>site_name = ''A'', currentCount = 9, maxCapacity = 10\<rparr>, \<lparr>site_name = ''B'', currentCount = 2, maxCapacity = 10\<rparr>]) = Some (list_ex qualifies (contents (foldl push_back empty_clist [\<lparr>site_name = ''A'', currentCount = 9, maxCapacity = 10\<rparr>, \<lparr>site_name = ''B'', currentCount = 2, maxCapacity = 10\<rparr>])))"
proof -
  have h: "ll_inv (foldl push_back empty_clist [\<lparr>site_name = ''A'', currentCount = 9, maxCapacity = 10\<rparr>, \<lparr>site_name = ''B'', currentCount = 2, maxCapacity = 10\<rparr>])" by code_simp
  have cs: "contents (foldl push_back empty_clist [\<lparr>site_name = ''A'', currentCount = 9, maxCapacity = 10\<rparr>, \<lparr>site_name = ''B'', currentCount = 2, maxCapacity = 10\<rparr>]) = [\<lparr>site_name = ''A'', currentCount = 9, maxCapacity = 10\<rparr>, \<lparr>site_name = ''B'', currentCount = 2, maxCapacity = 10\<rparr>]" by code_simp
  have c: "\<forall>s\<in>set (contents (foldl push_back empty_clist [\<lparr>site_name = ''A'', currentCount = 9, maxCapacity = 10\<rparr>, \<lparr>site_name = ''B'', currentCount = 2, maxCapacity = 10\<rparr>])). 0 \<le> currentCount s \<and> 0 \<le> maxCapacity s
           \<and> is_int32 (currentCount s) \<and> is_int32 (maxCapacity s)"
    unfolding cs by (simp add: is_int32_def int32_min_def int32_max_def)
  show ?thesis using h c capacity_check_equiv [OF h c] by (simp add: list_all_iff)
qed

end
