(* ===== verification/Console.thy ===== *)
theory Console
  imports Storage
begin

text \<open>
  The console input of \<^verbatim>\<open>src/main.cpp\<close>: \<^verbatim>\<open>std::cin\<close> as the characters not yet read
  (\<open>buf\<close>) and its \<^verbatim>\<open>good()\<close> state. The program never calls \<^verbatim>\<open>clear()\<close>, so once
  \<open>eofbit\<close> or \<open>failbit\<close> is set the stream stays not \<open>good\<close>, and one flag is enough:
  every later operation constructs a \<^verbatim>\<open>sentry\<close> that fails, leaving its target unchanged.
  The three operations the program performs are
  \<^item> \<open>cin_int\<close>: \<^verbatim>\<open>std::cin >> x\<close> into an \<^verbatim>\<open>int\<close> (libstdc++, C++11 and later): skip
    white space, read an optional sign and decimal digits; no digit stores 0 and fails the
    stream, a value outside \<^verbatim>\<open>int\<close> stores \<^verbatim>\<open>INT_MAX\<close>/\<^verbatim>\<open>INT_MIN\<close> and fails it, and
    reaching the end of the input sets \<open>eofbit\<close>. The target is an \<open>int option\<close>,
    \<open>None\<close> while the variable is uninitialised, because a failed sentry leaves it so;
  \<^item> \<open>cin_getline\<close>: \<^verbatim>\<open>std::getline(std::cin, str)\<close>, one line without its newline
    (\<open>getline_delim\<close> of theory \<open>Storage\<close>); at the end of the input it sets \<open>eofbit\<close>,
    and \<open>failbit\<close> when it read nothing;
  \<^item> \<open>cin_ignore\<close>: \<^verbatim>\<open>std::cin.ignore(numeric_limits<streamsize>::max(), '\n')\<close>,
    which is also all of \<^verbatim>\<open>pauseForUser\<close> apart from its output.
\<close>

record cin =
  buf :: string
  good :: bool

definition cin_of :: "string \<Rightarrow> cin" where
  "cin_of s = \<lparr>buf = s, good = True\<rparr>"

text \<open>Input typed line by line, each line ended by Enter.\<close>

definition input_lines :: "string list \<Rightarrow> string" where
  "input_lines ls = concat (map (\<lambda>l. l @ [CHR 0x0A]) ls)"

definition cin_int :: "int option \<Rightarrow> cin \<Rightarrow> int option \<times> cin" where
  "cin_int x s =
     (if \<not> good s then (x, s)
      else
        (let b = dropWhile is_space (buf s) in
         if b = [] then (x, \<lparr>buf = [], good = False\<rparr>)
         else
           (let (neg, r) = (case b of
                              c # r' \<Rightarrow> if c = CHR ''-'' then (True, r')
                                        else if c = CHR ''+'' then (False, r') else (False, b)
                            | [] \<Rightarrow> (False, []));
                ds = takeWhile is_digit r;
                rest = dropWhile is_digit r;
                v = (if neg then - digits_val ds else digits_val ds)
            in if ds = [] then (Some 0, \<lparr>buf = r, good = False\<rparr>)
               else if v < int32_min then (Some int32_min, \<lparr>buf = rest, good = False\<rparr>)
               else if int32_max < v then (Some int32_max, \<lparr>buf = rest, good = False\<rparr>)
               else (Some v, \<lparr>buf = rest, good = (rest \<noteq> [])\<rparr>))))"

definition cin_getline :: "string \<Rightarrow> cin \<Rightarrow> string \<times> cin" where
  "cin_getline str s =
     (if \<not> good s then (str, s)
      else
        (case getline_delim CHR 0x0A (buf s) of
           None \<Rightarrow> ([], \<lparr>buf = [], good = False\<rparr>)
         | Some (l, r) \<Rightarrow> (l, \<lparr>buf = r, good = (CHR 0x0A \<in> set (buf s))\<rparr>)))"

definition cin_ignore :: "cin \<Rightarrow> cin" where
  "cin_ignore s =
     (if \<not> good s then s
      else \<lparr>buf = drop 1 (dropWhile (\<lambda>c. c \<noteq> CHR 0x0A) (buf s)), good = (CHR 0x0A \<in> set (buf s))\<rparr>)"

definition pauseForUser :: "cin \<Rightarrow> cin" where
  "pauseForUser s = cin_ignore s"

subsection \<open>Reading from a failed stream\<close>

lemma cin_failed [simp]:
  "\<not> good s \<Longrightarrow> cin_int x s = (x, s)"
  "\<not> good s \<Longrightarrow> cin_getline str s = (str, s)"
  "\<not> good s \<Longrightarrow> cin_ignore s = s"
  "\<not> good s \<Longrightarrow> pauseForUser s = s"
  by (simp_all add: cin_int_def cin_getline_def cin_ignore_def pauseForUser_def)

subsection \<open>Reading a line\<close>

lemma dropWhile_line [simp]:
  "CHR 0x0A \<notin> set l \<Longrightarrow> dropWhile (\<lambda>c. c \<noteq> CHR 0x0A) (l @ CHR 0x0A # r) = CHR 0x0A # r"
  by (induction l) auto

lemma cin_getline_line [simp]:
  "CHR 0x0A \<notin> set l \<Longrightarrow> cin_getline str \<lparr>buf = l @ CHR 0x0A # r, good = True\<rparr> = (l, \<lparr>buf = r, good = True\<rparr>)"
  by (auto simp: cin_getline_def getline_delim_def takeWhile_tail)

lemma cin_ignore_line [simp]:
  "CHR 0x0A \<notin> set l \<Longrightarrow> cin_ignore \<lparr>buf = l @ CHR 0x0A # r, good = True\<rparr> = \<lparr>buf = r, good = True\<rparr>"
  by (simp add: cin_ignore_def)

lemma input_lines_Cons [simp]: "input_lines (l # ls) = l @ CHR 0x0A # input_lines ls"
  by (simp add: input_lines_def)

lemma input_lines_Nil [simp]: "input_lines [] = []"
  by (simp add: input_lines_def)

lemma input_lines_append: "input_lines (xs @ ys) = input_lines xs @ input_lines ys"
  by (simp add: input_lines_def)

lemma cin_of_simp [simp]: "cin_of s = \<lparr>buf = s, good = True\<rparr>"
  by (simp add: cin_of_def)

subsection \<open>Reading an \<^verbatim>\<open>int\<close>\<close>

lemma dropWhile_spaces: "list_all is_space ws \<Longrightarrow> dropWhile is_space (ws @ b) = dropWhile is_space b"
  by (induction ws) auto

lemma digits_val_nonneg: "list_all is_digit ds \<Longrightarrow> 0 \<le> digits_val ds"
proof (induction ds rule: rev_induct)
  case (snoc d ds)
  then have "48 \<le> (of_char d :: nat)" by (simp add: is_digit_def)
  then show ?case using snoc by (simp add: digits_val_snoc)
qed (simp add: digits_val_def)

lemma digits_all:
  assumes "list_all is_digit ds" "\<not> is_digit c"
  shows "takeWhile is_digit (ds @ c # r) = ds" "dropWhile is_digit (ds @ c # r) = c # r"
  using assms by (simp_all add: takeWhile_append2 dropWhile_append2 list_all_iff)

text \<open>\<^verbatim>\<open>operator>>\<close> on a well-formed number: blanks, an optional sign, decimal digits and a
  character that ends them. The value is stored when it is an \<^verbatim>\<open>int\<close>, clamped and the
  stream failed when it is not.\<close>

lemma cin_int_number:
  assumes ds: "ds \<noteq> []" "list_all is_digit ds" and c: "\<not> is_digit c"
    and ws: "list_all is_space ws" and sg: "sg = [] \<or> sg = ''-'' \<or> sg = ''+''"
  shows "cin_int x \<lparr>buf = ws @ sg @ ds @ c # r, good = True\<rparr> =
    (let v = (if sg = ''-'' then - digits_val ds else digits_val ds) in
     if v < int32_min then (Some int32_min, \<lparr>buf = c # r, good = False\<rparr>)
     else if int32_max < v then (Some int32_max, \<lparr>buf = c # r, good = False\<rparr>)
     else (Some v, \<lparr>buf = c # r, good = True\<rparr>))"
proof -
  obtain d ds' where d: "ds = d # ds'" using ds(1) by (cases ds) auto
  have dd: "is_digit d" using ds(2) d by simp
  have nd: "\<not> is_space d" "d \<noteq> CHR ''-''" "d \<noteq> CHR ''+''"
    using dd is_digit_not_space is_digit_not_sign by blast+
  have sp: "\<not> is_space CHR ''-''" "\<not> is_space CHR ''+''" by (simp_all add: is_space_def)
  have dw: "dropWhile is_space (ws @ sg @ ds @ c # r) = sg @ ds @ c # r"
    using sg nd(1) sp d by (auto simp: dropWhile_spaces [OF ws])
  show ?thesis
    using sg dw nd digits_all [OF ds(2) c, of r] ds(1)
    by (auto simp: cin_int_def Let_def d)
qed

lemma cin_int_show:
  assumes "is_int32 n" "\<not> is_digit c" "list_all is_space ws"
  shows "cin_int x \<lparr>buf = ws @ show_int n @ c # r, good = True\<rparr> = (Some n, \<lparr>buf = c # r, good = True\<rparr>)"
proof -
  have d: "show_nat m \<noteq> []" "list_all is_digit (show_nat m)" for m
    using show_nat_digits [of m] by (simp_all add: list_all_iff)
  show ?thesis
  proof (cases "n < 0")
    case True
    have "show_int n = ''-'' @ show_nat (nat (- n))" using True by (simp add: show_int_def)
    then show ?thesis
      using cin_int_number [OF d [of "nat (- n)"] assms(2,3), where sg = "''-''" and x = x and r = r] True assms(1)
      by (simp add: digits_val_show_nat is_int32_def)
  next
    case False
    have "show_int n = [] @ show_nat (nat n)" using False by (simp add: show_int_def)
    then show ?thesis
      using cin_int_number [OF d [of "nat n"] assms(2,3), where sg = "[]" and x = x and r = r] False assms(1)
      by (simp add: digits_val_show_nat is_int32_def)
  qed
qed

subsection \<open>Properties of the console reader\<close>

text \<open>Bounds of \<^verbatim>\<open>operator>>\<close>: digits whose value exceeds \<^verbatim>\<open>INT_MAX\<close> store
  \<^verbatim>\<open>INT_MAX\<close> and fail the stream, so every later read of the shell fails too.\<close>

theorem cin_int_clamps:
  assumes "ds \<noteq> []" "list_all is_digit ds" "int32_max < digits_val ds"
  shows "cin_int x (cin_of (ds @ CHR 0x0A # r)) = (Some int32_max, \<lparr>buf = CHR 0x0A # r, good = False\<rparr>)"
proof -
  have "\<not> is_digit CHR 0x0A" by (simp add: is_digit_def)
  then show ?thesis
    using cin_int_number [OF assms(1,2), of "CHR 0x0A" "[]" "[]" x r] assms(3) digits_val_nonneg [OF assms(2)]
    by (simp add: int32_min_def int32_max_def)
qed

theorem cin_int_clamps_witness:
  "''99999999999'' \<noteq> [] \<and> list_all is_digit ''99999999999'' \<and> int32_max < digits_val ''99999999999''
   \<and> cin_int None (cin_of (''99999999999'' @ CHR 0x0A # [])) = (Some int32_max, \<lparr>buf = CHR 0x0A # [], good = False\<rparr>)"
proof -
  have d: "''99999999999'' \<noteq> []" "list_all is_digit ''99999999999''" "int32_max < digits_val ''99999999999''"
    by (simp_all add: is_digit_def digits_val_def int32_max_def)
  show ?thesis using d cin_int_clamps [OF d, of None "[]"] by blast
qed

end
