(* ===== verification/Menu.thy ===== *)
theory Menu
  imports Deploy Console
begin

text \<open>
  The interactive shell of \<^verbatim>\<open>src/main.cpp\<close> on the world of theory \<open>Deploy\<close> and the
  console stream of theory \<open>Console\<close>. Every handler takes the stream and returns it with
  what it has read: \<open>registerSingleVolunteer\<close> and \<open>register_one\<close> (the body of the loop
  of \<open>registerMultipleVolunteers\<close>) read three lines with \<^verbatim>\<open>std::getline\<close>;
  \<open>registerMultipleVolunteers\<close> and the submenu \<open>registerVolunteer\<close> read an \<^verbatim>\<open>int\<close> with
  \<^verbatim>\<open>std::cin >>\<close> into a variable that is uninitialised until the read succeeds.
  \<open>menu_step\<close> is the \<^verbatim>\<open>switch (choice)\<close>, \<open>main_loop\<close> the \<^verbatim>\<open>while (running)\<close> loop with
  \<^verbatim>\<open>pauseForUser\<close>, and \<open>main\<close> start-up (\<open>main_init\<close>: \<^verbatim>\<open>loadVolunteersFromFile\<close> on an
  empty queue) followed by the loop. Loops that may not end are \<open>partial_function (option)\<close>:
  the registration \<^verbatim>\<open>for\<close> loop (\<open>register_for\<close>) and the main loop, whose result \<open>None\<close>
  is that they do not return. Reading an uninitialised \<open>int\<close> (undefined behaviour) is
  \<open>Inl Indeterminate_value\<close>. \<open>reachable\<close> is the set of worlds the program can reach from
  start-up; its invariant \<open>queue_ok\<close> (a well-formed queue whose volunteers all have
  non-empty, trimmed fields) holds on every reachable world (\<open>reachable_ok\<close>).
\<close>

definition registerSingleVolunteer :: "world \<Rightarrow> cin \<Rightarrow> world \<times> cin" where
  "registerSingleVolunteer w s0 =
     (let (n0, s1) = cin_getline [] s0; n = trim n0 in
      if n = [] then (w, s1)
      else
        (let (c0, s2) = cin_getline [] s1; c = trim c0 in
         if c = [] then (w, s2)
         else
           (let (k0, s3) = cin_getline [] s2; k = trim k0 in
            if k = [] then (w, s3)
            else
              (let v = \<lparr>name = n, contact = c, skill = k\<rparr> in
               (w\<lparr>queue := enqueue (queue w) v,
                  volunteers_file := saveVolunteerToFile v (volunteers_file w)\<rparr>, s3)))))"

definition register_one :: "world \<Rightarrow> cin \<Rightarrow> world \<times> cin" where
  "register_one w s0 =
     (let (n0, s1) = cin_getline [] s0; n = trim n0 in
      if n = ''skip'' \<or> n = [] then (w, s1)
      else
        (let (c0, s2) = cin_getline [] s1; c = trim c0 in
         if c = ''skip'' \<or> c = [] then (w, s2)
         else
           (let (k0, s3) = cin_getline [] s2; k = trim k0 in
            if k = ''skip'' \<or> k = [] then (w, s3)
            else
              (let v = \<lparr>name = n, contact = c, skill = k\<rparr> in
               (w\<lparr>queue := enqueue (queue w) v,
                  volunteers_file := saveVolunteerToFile v (volunteers_file w)\<rparr>, s3)))))"

text \<open>The \<^verbatim>\<open>for (int i = 1; i <= numVolunteers; i++)\<close> loop, with its \<^verbatim>\<open>int\<close> counter
  incremented as the machine does (\<open>wrap32\<close>). It is a partial function: for
  \<^verbatim>\<open>numVolunteers = INT_MAX\<close> the condition never fails, and \<open>None\<close> is that the loop does
  not end.\<close>

partial_function (option) register_for :: "int \<Rightarrow> int \<Rightarrow> world \<Rightarrow> cin \<Rightarrow> (world \<times> cin) option" where
  "register_for numVolunteers i w s =
     (if i \<le> numVolunteers then
        (case register_one w s of (w', s') \<Rightarrow> register_for numVolunteers (wrap32 (i + 1)) w' s')
      else Some (w, s))"

declare register_for.simps [code]

text \<open>The same loop counted down over \<open>nat\<close>: the reference the \<^verbatim>\<open>for\<close> loop is compared with.\<close>

fun register_loop :: "nat \<Rightarrow> world \<Rightarrow> cin \<Rightarrow> world \<times> cin" where
  "register_loop 0 w s = (w, s)"
| "register_loop (Suc k) w s = (let (w', s') = register_one w s in register_loop k w' s')"

definition registerMultipleVolunteers :: "world \<Rightarrow> cin \<Rightarrow> (exn + world \<times> cin) option" where
  "registerMultipleVolunteers w s0 =
     (let (k, s1) = cin_int None s0; s2 = cin_ignore s1 in
      case k of
        None \<Rightarrow> Some (Inl Indeterminate_value)
      | Some numVolunteers \<Rightarrow>
          if numVolunteers \<le> 0 then Some (Inr (w, s2))
          else if 50 < numVolunteers then
            (let (confirm, s3) = cin_getline [] s2 in
             if confirm \<notin> set [''y'', ''Y'', ''yes'', ''Yes''] then Some (Inr (w, s3))
             else map_option Inr (register_for numVolunteers 1 w s3))
          else map_option Inr (register_for numVolunteers 1 w s2))"

definition registerVolunteer :: "world \<Rightarrow> cin \<Rightarrow> (exn + world \<times> cin) option" where
  "registerVolunteer w s0 =
     (let (ch, s1) = cin_int None s0; s2 = cin_ignore s1 in
      case ch of
        None \<Rightarrow> Some (Inl Indeterminate_value)
      | Some choice \<Rightarrow>
          if choice = 1 then Some (Inr (registerSingleVolunteer w s2))
          else if choice = 2 then registerMultipleVolunteers w s2
          else Some (Inr (w, s2)))"

text \<open>One pass through \<^verbatim>\<open>switch (choice)\<close>: 1 registers, 2 deploys, 3 views (output only),
  4 prints the farewell, anything else the invalid-choice message.\<close>

definition menu_step :: "world \<Rightarrow> int \<Rightarrow> cin \<Rightarrow> (exn + world \<times> cin) option" where
  "menu_step w choice s =
     (if choice = 1 then registerVolunteer w s
      else if choice = 2 then Some (case deployVolunteer w of Inl e \<Rightarrow> Inl e | Inr (_, w') \<Rightarrow> Inr (w', s))
      else Some (Inr (w, s)))"

text \<open>\<^verbatim>\<open>while (running)\<close>: \<open>choice\<close> is the variable declared before the loop (\<open>None\<close>
  while uninitialised), read anew by every iteration; \<open>None\<close> as result is that \<^verbatim>\<open>main\<close>
  does not return, \<open>Inl\<close> an exception or undefined behaviour that ends it.\<close>

partial_function (option) main_loop :: "int option \<Rightarrow> world \<Rightarrow> cin \<Rightarrow> (exn + world) option" where
  "main_loop choice w s =
     (case cin_int choice s of
        (None, _) \<Rightarrow> Some (Inl Indeterminate_value)
      | (Some c, s1) \<Rightarrow>
          Option.bind (menu_step w c (cin_ignore s1))
            (\<lambda>r. case r of
                   Inl e \<Rightarrow> Some (Inl e)
                 | Inr (w', s2) \<Rightarrow> if c = 4 then Some (Inr w') else main_loop (Some c) w' (pauseForUser s2)))"

declare main_loop.simps [code]

definition main_init :: "string list option \<Rightarrow> string list option \<Rightarrow> string list option \<Rightarrow> world" where
  "main_init vf df sf =
     \<lparr>queue = loadVolunteersFromFile vq_init vf df, volunteers_file = vf, ledger_file = df, sites_file = sf\<rparr>"

definition main :: "string list option \<Rightarrow> string list option \<Rightarrow> string list option \<Rightarrow> string \<Rightarrow> (exn + world) option" where
  "main vf df sf input = main_loop None (main_init vf df sf) (cin_of input)"

inductive reachable :: "world \<Rightarrow> bool" where
  start: "reachable (main_init vf df sf)"
| step: "reachable w \<Longrightarrow> menu_step w c s = Some (Inr (w', s')) \<Longrightarrow> reachable w'"

text \<open>Every queued volunteer has non-empty, trimmed fields: \<open>fields_ok\<close>.\<close>

definition fields_ok :: "volunteer \<Rightarrow> bool" where
  "fields_ok v \<longleftrightarrow> name v \<noteq> [] \<and> contact v \<noteq> [] \<and> skill v \<noteq> []
     \<and> trim (name v) = name v \<and> trim (contact v) = contact v \<and> trim (skill v) = skill v"

definition queue_ok :: "world \<Rightarrow> bool" where
  "queue_ok w \<longleftrightarrow> vq_inv (queue w) \<and> list_all fields_ok (queue_list (queue w))"

subsection \<open>Registration\<close>

lemma register_one_inv: "vq_inv (queue w) \<Longrightarrow> vq_inv (queue (fst (register_one w s)))"
  by (auto simp: register_one_def Let_def enqueue_inv_list split: prod.splits)

lemma registerSingleVolunteer_inv: "vq_inv (queue w) \<Longrightarrow> vq_inv (queue (fst (registerSingleVolunteer w s)))"
  by (auto simp: registerSingleVolunteer_def Let_def enqueue_inv_list split: prod.splits)

text \<open>The \<^verbatim>\<open>for\<close> loop ends exactly when \<open>numVolunteers < INT_MAX\<close>, and then it is the
  count-down loop run \<open>numVolunteers - i + 1\<close> times.\<close>

lemma register_for_loop:
  assumes "is_int32 i" "n < int32_max"
  shows "register_for n i w s = Some (register_loop (nat (n + 1 - i)) w s)"
  using assms
proof (induction "nat (n + 1 - i)" arbitrary: i w s)
  case 0
  then have "\<not> i \<le> n" by simp
  then show ?case using 0(1) [symmetric] by (subst register_for.simps) simp
next
  case (Suc k)
  then have le: "i \<le> n" by simp
  then have w: "wrap32 (i + 1) = i + 1" and i1: "is_int32 (i + 1)"
    using Suc.prems by (simp_all add: is_int32_def)
  have k: "k = nat (n + 1 - (i + 1))" using Suc.hyps(2) by simp
  obtain w1 s1 where r: "register_one w s = (w1, s1)" by (cases "register_one w s")
  have "register_for n i w s = register_for n (i + 1) w1 s1"
    using le r w by (subst register_for.simps) simp
  also have "\<dots> = Some (register_loop k w1 s1)" using Suc.hyps(1) [OF k i1 Suc.prems(2)] k by simp
  finally show ?case using r Suc.hyps(2) [symmetric] by simp
qed

lemma register_for_int_max:
  assumes "is_int32 i"
  shows "register_for int32_max i w s = None"
proof -
  have "n = int32_max \<longrightarrow> \<not> is_int32 i" if "register_for n i w s = Some y" for n i w s y
    using that
  proof (rule register_for.raw_induct [rotated], goal_cases)
    case (1 f n i w s y)
    show ?case
    proof (intro impI notI)
      assume n: "n = int32_max" and i: "is_int32 i"
      then have "i \<le> n" by (simp add: is_int32_def)
      then obtain w' s' where "f n (wrap32 (i + 1)) w' s' = Some y"
        using 1(2) by (auto split: prod.splits)
      then show False using 1(1) n is_int32_wrap32 by blast
    qed
  qed
  then show ?thesis using assms by (cases "register_for int32_max i w s") auto
qed

text \<open>A count typed beyond \<^verbatim>\<open>INT_MAX\<close> is clamped to \<^verbatim>\<open>INT_MAX\<close> with the stream failed, so
  the confirmation read fails too and registration is cancelled: only \<^verbatim>\<open>2147483647\<close> typed
  exactly and confirmed reaches the loop that never ends.\<close>

lemma registerMultiple_overflow_cancelled:
  assumes "ds \<noteq> []" "list_all is_digit ds" "int32_max < digits_val ds"
  shows "registerMultipleVolunteers w (cin_of (ds @ CHR 0x0A # r))
           = Some (Inr (w, \<lparr>buf = CHR 0x0A # r, good = False\<rparr>))"
proof -
  have "\<not> is_digit CHR 0x0A" by (simp add: is_digit_def)
  then have "cin_int None (cin_of (ds @ CHR 0x0A # r)) = (Some int32_max, \<lparr>buf = CHR 0x0A # r, good = False\<rparr>)"
    using cin_int_number [OF assms(1,2), of "CHR 0x0A" "[]" "[]" None r] assms(3) digits_val_nonneg [OF assms(2)]
    by (simp add: int32_min_def int32_max_def)
  then show ?thesis by (simp add: registerMultipleVolunteers_def int32_max_def)
qed

lemma register_for_preserves:
  assumes step: "\<And>w s. P w \<Longrightarrow> P (fst (register_one w s))"
    and r: "register_for n i w s = Some r" and p: "P w"
  shows "P (fst r)"
proof -
  have "P w \<longrightarrow> P (fst r)" if "register_for n i w s = Some r" for n i w s r
    using that
  proof (rule register_for.raw_induct [rotated], goal_cases)
    case (1 f n i w s r)
    show ?case
    proof
      assume q: "P w"
      show "P (fst r)"
      proof (cases "i \<le> n")
        case True
        obtain w' s' where o: "register_one w s = (w', s')" by (cases "register_one w s")
        then have "f n (wrap32 (i + 1)) w' s' = Some r" using 1(2) True by simp
        moreover have "P w'" using step [OF q, of s] o by simp
        ultimately show ?thesis using 1(1) by blast
      qed (use 1(2) q in auto)
    qed
  qed
  then show ?thesis using r p by blast
qed

lemma map_option_Inr_Some:
  "map_option Inr x = Some r \<Longrightarrow> \<exists>y. x = Some y \<and> r = Inr y"
  by (cases x) auto

lemma registerMultipleVolunteers_preserves:
  assumes step: "\<And>w s. P w \<Longrightarrow> P (fst (register_one w s))"
    and r: "registerMultipleVolunteers w s = Some r" and p: "P w"
  shows "r = Inl Indeterminate_value \<or> (\<exists>w' s'. r = Inr (w', s') \<and> P w')"
proof -
  have loop: "map_option Inr (register_for n 1 w s') = Some r \<Longrightarrow> \<exists>w' s'. r = Inr (w', s') \<and> P w'" for n s'
    using register_for_preserves [where P = P, OF step _ p] by (fastforce dest: map_option_Inr_Some)
  obtain k s1 where k: "cin_int None s = (k, s1)" by (cases "cin_int None s")
  show ?thesis
  proof (cases k)
    case (Some n)
    obtain confirm s3 where c: "cin_getline [] (cin_ignore s1) = (confirm, s3)"
      by (cases "cin_getline [] (cin_ignore s1)")
    show ?thesis using r k c Some p loop
      by (auto simp: registerMultipleVolunteers_def Let_def split: if_splits)
  qed (use r k in \<open>simp add: registerMultipleVolunteers_def\<close>)
qed

lemma registerVolunteer_preserves:
  assumes "\<And>w s. P w \<Longrightarrow> P (fst (register_one w s))"
    and "\<And>w s. P w \<Longrightarrow> P (fst (registerSingleVolunteer w s))"
    and r: "registerVolunteer w s = Some r" and p: "P w"
  shows "r = Inl Indeterminate_value \<or> (\<exists>w' s'. r = Inr (w', s') \<and> P w')"
proof -
  obtain k s1 where k: "cin_int None s = (k, s1)" by (cases "cin_int None s")
  show ?thesis
  proof (cases k)
    case (Some c)
    have "P (fst (registerSingleVolunteer w (cin_ignore s1)))" using assms(2) p .
    then show ?thesis
      using r k Some p registerMultipleVolunteers_preserves [where P = P, OF assms(1) _ p]
      by (cases "registerSingleVolunteer w (cin_ignore s1)") (auto simp: registerVolunteer_def Let_def split: if_splits)
  qed (use r k in \<open>simp add: registerVolunteer_def\<close>)
qed

text \<open>What every handler of the switch does to a property of the world that registration
  and deployment keep: it keeps it, and the only error a handler ends in is the read of
  an uninitialised \<open>int\<close>.\<close>

lemma menu_step_preserves:
  assumes "\<And>w s. P w \<Longrightarrow> P (fst (register_one w s))"
    and "\<And>w s. P w \<Longrightarrow> P (fst (registerSingleVolunteer w s))"
    and "\<And>w out w'. P w \<Longrightarrow> deployVolunteer w = Inr (out, w') \<Longrightarrow> P w'"
    and "\<And>w. P w \<Longrightarrow> vq_inv (queue w)"
    and "menu_step w c s = Some r" and "P w"
  shows "r = Inl Indeterminate_value \<or> (\<exists>w' s'. r = Inr (w', s') \<and> P w')"
proof (cases "c = 1")
  case True
  then show ?thesis using registerVolunteer_preserves [where P = P, OF assms(1,2)] assms(5,6) by (simp add: menu_step_def)
next
  case False
  obtain out w' where "deployVolunteer w = Inr (out, w')"
    using deploy_total [OF assms(4) [OF assms(6)]] by blast
  then show ?thesis using False assms(3,5,6) by (auto simp: menu_step_def split: if_splits)
qed

lemma menu_step_total:
  "vq_inv (queue w) \<Longrightarrow> c \<noteq> 1 \<Longrightarrow> \<exists>w'. menu_step w c s = Some (Inr (w', s)) \<and> vq_inv (queue w')"
  using deploy_total [of w] by (auto simp: menu_step_def)

lemma register_loop_preserves:
  "(\<And>w s. P w \<Longrightarrow> P (fst (register_one w s))) \<Longrightarrow> P w \<Longrightarrow> P (fst (register_loop k w s))"
proof (induction k arbitrary: w s)
  case (Suc k)
  obtain w1 s1 where r: "register_one w s = (w1, s1)" by (cases "register_one w s")
  have "P w1" using Suc.prems(1) [OF Suc.prems(2), of s] r by simp
  then show ?case using Suc.IH [OF Suc.prems(1)] r by simp
qed simp

lemma queue_ok_enqueue:
  "queue_ok w \<Longrightarrow> trim n \<noteq> [] \<Longrightarrow> trim c \<noteq> [] \<Longrightarrow> trim k \<noteq> [] \<Longrightarrow>
     queue_ok (w\<lparr>queue := enqueue (queue w) \<lparr>name = trim n, contact = trim c, skill = trim k\<rparr>, volunteers_file := f\<rparr>)"
  by (simp add: queue_ok_def enqueue_inv_list fields_ok_def trim_idem)

lemma register_one_ok: "queue_ok w \<Longrightarrow> queue_ok (fst (register_one w s))"
  by (auto simp: register_one_def Let_def queue_ok_enqueue split: prod.splits)

lemma registerSingleVolunteer_ok: "queue_ok w \<Longrightarrow> queue_ok (fst (registerSingleVolunteer w s))"
  by (auto simp: registerSingleVolunteer_def Let_def queue_ok_enqueue split: prod.splits)

lemma dequeue_Inr: "vq_inv q \<Longrightarrow> dequeue q = Inr (v, q') \<Longrightarrow> queue_list q = v # queue_list q' \<and> vq_inv q'"
proof (cases "queue_list q")
  case Nil
  assume "vq_inv q" "dequeue q = Inr (v, q')"
  then show ?thesis using Nil by (simp add: is_empty_q_list dequeue_def)
next
  case (Cons u us)
  assume i: "vq_inv q" and d: "dequeue q = Inr (v, q')"
  from dequeue_list [OF i Cons] d show ?thesis using Cons by auto
qed

lemma deploy_ok: "queue_ok w \<Longrightarrow> deployVolunteer w = Inr (out, w') \<Longrightarrow> queue_ok w'"
proof -
  assume ok: "queue_ok w" and d: "deployVolunteer w = Inr (out, w')"
  from deploy_cases [OF d] show ?thesis
  proof
    assume "\<exists>v i. out = Deployed v i \<and> dequeue (queue w) = Inr (v, queue w')
        \<and> ledger_file w' = saveDeployedVolunteer v (ledger_file w)"
    then obtain v where "dequeue (queue w) = Inr (v, queue w')" by blast
    with ok have "queue_list (queue w) = v # queue_list (queue w')" and "vq_inv (queue w')"
      using dequeue_Inr by (auto simp: queue_ok_def)
    with ok show ?thesis by (simp add: queue_ok_def)
  qed (use ok in auto)
qed

lemma main_init_inv: "vq_inv (queue (main_init vf df sf))"
  by (cases vf) (simp_all add: main_init_def loadVolunteersFromFile_def load_volunteers_foldl vq_inv_init)

lemma main_init_ok: "queue_ok (main_init vf df sf)"
proof -
  have "\<And>u ls. u \<in> set (List.map_filter parse_volunteer_line ls) \<Longrightarrow> fields_ok u"
    using parse_volunteer_lineE by (auto simp: in_set_map_filter fields_ok_def)
  then show ?thesis using main_init_inv [of vf df sf]
    by (cases vf) (auto simp: queue_ok_def main_init_def loadVolunteersFromFile_def load_volunteers_foldl
                               vq_inv_init queue_list_init list_all_iff)
qed

lemma menu_step_ok:
  assumes "queue_ok w" "menu_step w c s = Some r"
  shows "r = Inl Indeterminate_value \<or> (\<exists>w' s'. r = Inr (w', s') \<and> queue_ok w')"
  by (rule menu_step_preserves [where P = queue_ok, OF register_one_ok registerSingleVolunteer_ok deploy_ok
        _ assms(2,1)]) (simp_all add: queue_ok_def)

lemma reachable_ok: "reachable w \<Longrightarrow> queue_ok w"
proof (induction rule: reachable.induct)
  case (start vf df sf)
  then show ?case by (rule main_init_ok)
next
  case (step w c s w' s')
  then show ?case using menu_step_ok [OF step.IH step.hyps(2)] by auto
qed

lemma reachable_inv: "reachable w \<Longrightarrow> vq_inv (queue w)"
  using reachable_ok by (simp add: queue_ok_def)

subsection \<open>The main loop\<close>

text \<open>Partial correctness of \<open>main_loop\<close> by its fixpoint induction: a run that returns
  normally ends in a reachable world, and a run that ends in error ends in the read of an
  uninitialised \<open>int\<close>.\<close>

lemma main_loop_result:
  assumes "main_loop x w s = Some r" "reachable w"
  shows "r = Inl Indeterminate_value \<or> (\<exists>w'. r = Inr w' \<and> reachable w')"
proof -
  have "reachable w \<longrightarrow> r = Inl Indeterminate_value \<or> (\<exists>w'. r = Inr w' \<and> reachable w')"
    if "main_loop x w s = Some r" for x w s r
    using that
  proof (rule main_loop.raw_induct [rotated], goal_cases)
    case (1 f x w s r)
    show ?case
    proof
      assume rw: "reachable w"
      obtain ch s1 where ci: "cin_int x s = (ch, s1)" by (cases "cin_int x s")
      show "r = Inl Indeterminate_value \<or> (\<exists>w'. r = Inr w' \<and> reachable w')"
      proof (cases ch)
        case (Some c)
        with 1(2) ci obtain m where m: "menu_step w c (cin_ignore s1) = Some m"
          and b: "(case m of Inl e \<Rightarrow> Some (Inl e) | Inr (w', s2) \<Rightarrow>
                    if c = 4 then Some (Inr w') else f (Some c) w' (pauseForUser s2)) = Some r"
          by (auto simp: bind_eq_Some_conv)
        from menu_step_ok [OF reachable_ok [OF rw] m] show ?thesis
        proof
          assume "m = Inl Indeterminate_value" then show ?thesis using b by simp
        next
          assume "\<exists>w' s'. m = Inr (w', s') \<and> queue_ok w'"
          then obtain w' s' where mr: "m = Inr (w', s')" by blast
          have rw': "reachable w'" using reachable.step [OF rw] m mr by blast
          show ?thesis
          proof (cases "c = 4")
            case True then show ?thesis using b mr rw' by auto
          next
            case False then show ?thesis using b mr rw' 1(1) by auto
          qed
        qed
      qed (use 1(2) ci in simp)
    qed
  qed
  then show ?thesis using assms by blast
qed

text \<open>Once the console input has failed, every read leaves \<open>choice\<close> as it was, so a loop
  holding any choice but 1 (whose submenu then reads an uninitialised \<open>int\<close>) and 4
  repeats that choice forever.\<close>

lemma main_loop_failed:
  assumes "\<not> good s" "c \<noteq> 1" "c \<noteq> 4" "vq_inv (queue w)"
  shows "main_loop (Some c) w s = None"
proof -
  have "x = Some c \<longrightarrow> \<not> good s \<longrightarrow> vq_inv (queue w) \<longrightarrow> False" if "main_loop x w s = Some r" for x w s r
    using that
  proof (rule main_loop.raw_induct [rotated], goal_cases)
    case (1 f x w s r)
    show ?case
    proof (intro impI)
      assume x: "x = Some c" and g: "\<not> good s" and q: "vq_inv (queue w)"
      obtain w' where m: "menu_step w c s = Some (Inr (w', s))" and q': "vq_inv (queue w')"
        using menu_step_total [OF q assms(2)] by blast
      have "f (Some c) w' s = Some r" using 1(2) x g m assms(3) by simp
      then show False using 1(1) g q' by blast
    qed
  qed
  then show ?thesis using assms by (cases "main_loop (Some c) w s") auto
qed

lemma main_loop_iter:
  assumes "cin_int x s = (Some c, s1)" "menu_step w c (cin_ignore s1) = Some (Inr (w', s2))" "c \<noteq> 4"
  shows "main_loop x w s = main_loop (Some c) w' (pauseForUser s2)"
  using assms by (subst main_loop.simps) simp

lemma main_loop_exit:
  "cin_int x s = (Some 4, s1) \<Longrightarrow> main_loop x w s = Some (Inr w)"
  by (subst main_loop.simps) (simp add: menu_step_def)

lemma cin_int_line:
  "is_int32 c \<Longrightarrow> cin_int x (cin_of (input_lines (show_int c # ls))) = (Some c, \<lparr>buf = CHR 0x0A # input_lines ls, good = True\<rparr>)"
  using cin_int_show [of c "CHR 0x0A" "[]"] by (simp add: is_digit_def)

lemma show_int_small [simp]: "show_int 1 = ''1''" "show_int 2 = ''2''" "show_int 3 = ''3''" "show_int 4 = ''4''"
  by code_simp+

text \<open>One pass of the loop on typed lines: the choice \<open>c\<close> on a line, the handler reading
  what follows, and the Enter of \<^verbatim>\<open>pauseForUser\<close>.\<close>

lemma main_loop_line:
  assumes "is_int32 c" "c \<noteq> 4"
    and "menu_step w c (cin_of (input_lines ls)) = Some (Inr (w', cin_of (input_lines ([] # ls'))))"
  shows "main_loop x w (cin_of (input_lines (show_int c # ls))) = main_loop (Some c) w' (cin_of (input_lines ls'))"
proof -
  have "cin_ignore \<lparr>buf = CHR 0x0A # input_lines ls, good = True\<rparr> = cin_of (input_lines ls)"
    using cin_ignore_line [of "[]"] by simp
  moreover have "pauseForUser (cin_of (input_lines ([] # ls'))) = cin_of (input_lines ls')"
    using cin_ignore_line [of "[]"] by (simp add: pauseForUser_def)
  ultimately show ?thesis using main_loop_iter [OF cin_int_line [OF assms(1)] _ assms(2)] assms(3) by simp
qed

lemma main_loop_deploy:
  assumes "deployVolunteer w = Inr (out, w1)"
  shows "main_loop x w (cin_of (input_lines (''2'' # [] # ls))) = main_loop (Some 2) w1 (cin_of (input_lines ls))"
  using main_loop_line [of 2 w "[] # ls" w1 ls x] assms
  by (simp add: menu_step_def is_int32_def int32_min_def int32_max_def)

lemma main_loop_quit: "main_loop x w (cin_of (input_lines (''4'' # ls))) = Some (Inr w)"
  using cin_int_line [of 4 x ls] by (simp add: main_loop_exit is_int32_def int32_min_def int32_max_def)

subsection \<open>Properties of the shell\<close>

text \<open>C5: Every world the program can reach from start-up satisfies the queue invariant
  (well-formed queue, every volunteer with non-empty trimmed fields); from it, every
  menu choice on every console input ends in a reachable world or in the read of an
  uninitialised \<open>int\<close> (never an exception or a null dereference), and every choice but 1
  completes and reads nothing.\<close>

theorem reachable_safe:
  assumes "reachable w"
  shows "queue_ok w
    \<and> (\<forall>c s. menu_step w c s = None \<or> menu_step w c s = Some (Inl Indeterminate_value)
                \<or> (\<exists>w' s'. menu_step w c s = Some (Inr (w', s')) \<and> reachable w'))
    \<and> (\<forall>c s. c = 1 \<or> (\<exists>w'. menu_step w c s = Some (Inr (w', s))))"
proof -
  have ok: "queue_ok w" using reachable_ok [OF assms] .
  have "menu_step w c s = None \<or> menu_step w c s = Some (Inl Indeterminate_value)
      \<or> (\<exists>w' s'. menu_step w c s = Some (Inr (w', s')) \<and> reachable w')" for c s
    using menu_step_ok [OF ok, of c s] reachable.step [OF assms, of c s] by (cases "menu_step w c s") blast+
  moreover have "c = 1 \<or> (\<exists>w'. menu_step w c s = Some (Inr (w', s)))" for c s
    using menu_step_total [of w c s] ok by (auto simp: queue_ok_def)
  ultimately show ?thesis using ok by blast
qed

theorem reachable_safe_witness:
  "reachable (main_init (Some []) (Some []) (Some [''A 0 10'']))
   \<and> queue_ok (main_init (Some []) (Some []) (Some [''A 0 10'']))
   \<and> (\<forall>c s. menu_step (main_init (Some []) (Some []) (Some [''A 0 10''])) c s = None
        \<or> menu_step (main_init (Some []) (Some []) (Some [''A 0 10''])) c s = Some (Inl Indeterminate_value)
        \<or> (\<exists>w' s'. menu_step (main_init (Some []) (Some []) (Some [''A 0 10''])) c s = Some (Inr (w', s')) \<and> reachable w'))
   \<and> (\<forall>c s. c = 1 \<or> (\<exists>w'. menu_step (main_init (Some []) (Some []) (Some [''A 0 10''])) c s = Some (Inr (w', s))))"
  using reachable.start reachable_safe [OF reachable.start [of "Some []" "Some []" "Some [''A 0 10'']"]] by blast

text \<open>C6: No C++ exception escapes \<^verbatim>\<open>main\<close> and no null pointer is dereferenced, whatever
  the data files and the console input: a run that ends either returns through Exit with
  the queue invariant, or ends reading the uninitialised \<open>choice\<close>.\<close>

theorem main_no_exception:
  assumes "main vf df sf input = Some r"
  shows "r = Inl Indeterminate_value \<or> (\<exists>w. r = Inr w \<and> queue_ok w)"
  using main_loop_result [OF assms [unfolded main_def] reachable.start] reachable_ok by blast

theorem main_no_exception_witness:
  "main (Some [''Ana,555,medic'']) (Some []) (Some [''A 0 10'']) (input_lines [''3'', '''', ''4''])
     = Some (Inr (main_init (Some [''Ana,555,medic'']) (Some []) (Some [''A 0 10''])))
   \<and> (Inr (main_init (Some [''Ana,555,medic'']) (Some []) (Some [''A 0 10''])) = Inl Indeterminate_value
      \<or> (\<exists>w. Inr (main_init (Some [''Ana,555,medic'']) (Some []) (Some [''A 0 10''])) = (Inr w :: exn + world) \<and> queue_ok w))"
proof -
  have m: "main (Some [''Ana,555,medic'']) (Some []) (Some [''A 0 10'']) (input_lines [''3'', '''', ''4''])
     = Some (Inr (main_init (Some [''Ana,555,medic'']) (Some []) (Some [''A 0 10''])))"
    by code_simp
  show ?thesis using m main_no_exception [OF m] by simp
qed

text \<open>C17: On blank console input \<^verbatim>\<open>main\<close>'s first \<^verbatim>\<open>std::cin >> choice\<close> fails at the end
  of the input and leaves \<open>choice\<close> uninitialised; the \<^verbatim>\<open>switch\<close> then reads an
  indeterminate value, which is undefined behaviour.\<close>

theorem main_blank_input:
  assumes "list_all is_space input"
  shows "main vf df sf input = Some (Inl Indeterminate_value)"
proof -
  have "cin_int None (cin_of input) = (None, \<lparr>buf = [], good = False\<rparr>)"
    using dropWhile_spaces [OF assms, of "[]"] by (simp add: cin_int_def)
  then show ?thesis by (simp add: main_def main_loop.simps)
qed

theorem main_blank_input_witness:
  "list_all is_space (input_lines [''  '']) \<and> main None None None (input_lines [''  '']) = Some (Inl Indeterminate_value)"
proof -
  have b: "list_all is_space (input_lines [''  ''])" by (simp add: is_space_def)
  show ?thesis using b main_blank_input [OF b] by simp
qed

text \<open>C15: The shell does not check its input stream: once \<^verbatim>\<open>std::cin\<close> has failed
  (a read found no number, or reached the end of the input), every later read leaves
  \<open>choice\<close> as it was, so a loop whose last choice was not 1 or 4 repeats that choice
  forever and \<^verbatim>\<open>main\<close> never returns.\<close>

theorem shell_spins:
  assumes "vq_inv (queue w)" "c \<noteq> 1" "c \<noteq> 4" "\<not> good s"
  shows "main_loop (Some c) w s = None"
  using main_loop_failed [OF assms(4,2,3,1)] .

theorem shell_spins_witness:
  "vq_inv (queue (main_init None None None)) \<and> (3::int) \<noteq> 1 \<and> (3::int) \<noteq> 4
   \<and> \<not> good (snd (cin_int (Some 3) (cin_of [])))
   \<and> main_loop (Some 3) (main_init None None None) (snd (cin_int (Some 3) (cin_of []))) = None"
proof -
  have g: "\<not> good (snd (cin_int (Some 3) (cin_of [])))" by (simp add: cin_int_def)
  show ?thesis using main_init_inv g shell_spins [OF main_init_inv _ _ g, of 3] by simp
qed

text \<open>C16: A menu entry that does not start with a number (after blanks: neither a digit
  nor a sign) makes \<^verbatim>\<open>std::cin >> choice\<close> store 0 and fail the stream; the shell prints
  the invalid-choice message forever and \<^verbatim>\<open>main\<close> never returns, whatever the data files.\<close>

theorem main_nonnumeric_diverges:
  assumes "\<not> is_space d" "\<not> is_digit d" "d \<noteq> CHR ''-''" "d \<noteq> CHR ''+''"
  shows "main vf df sf (d # r) = None"
proof -
  have ci: "cin_int None (cin_of (d # r)) = (Some 0, \<lparr>buf = d # r, good = False\<rparr>)"
    using assms by (simp add: cin_int_def)
  have m: "menu_step (main_init vf df sf) 0 \<lparr>buf = d # r, good = False\<rparr>
      = Some (Inr (main_init vf df sf, \<lparr>buf = d # r, good = False\<rparr>))"
    by (simp add: menu_step_def)
  have "main vf df sf (d # r) = main_loop (Some 0) (main_init vf df sf) \<lparr>buf = d # r, good = False\<rparr>"
    using main_loop_iter [OF ci] m by (simp add: main_def)
  then show ?thesis using main_loop_failed [OF _ _ _ main_init_inv] by simp
qed

theorem main_nonnumeric_diverges_witness:
  "\<not> is_space CHR ''x'' \<and> \<not> is_digit CHR ''x'' \<and> CHR ''x'' \<noteq> CHR ''-'' \<and> CHR ''x'' \<noteq> CHR ''+''
   \<and> main (Some [''Ana,555,medic'']) (Some []) (Some [''A 0 10'']) (CHR ''x'' # input_lines [[], ''4'']) = None"
proof -
  have c: "\<not> is_space CHR ''x''" "\<not> is_digit CHR ''x''" "CHR ''x'' \<noteq> CHR ''-''" "CHR ''x'' \<noteq> CHR ''+''"
    by (simp_all add: is_space_def is_digit_def)
  show ?thesis using c main_nonnumeric_diverges [OF c] by simp
qed

text \<open>C18: The loop of \<^verbatim>\<open>registerMultipleVolunteers\<close> ends exactly when the count is below
  \<^verbatim>\<open>INT_MAX\<close>, and then runs the loop body \<open>numVolunteers\<close> times; for \<^verbatim>\<open>INT_MAX\<close> the
  counter \<^verbatim>\<open>i\<close> overflows after the last iteration and the loop never ends.\<close>

theorem register_for_terminates:
  assumes "is_int32 n"
  shows "register_for n 1 w s = (if n < int32_max then Some (register_loop (nat n) w s) else None)"
proof (cases "n < int32_max")
  case True
  then show ?thesis using register_for_loop [of 1 n w s] by (simp add: is_int32_def int32_min_def int32_max_def)
next
  case False
  then have "n = int32_max" using assms by (simp add: is_int32_def)
  then show ?thesis using register_for_int_max [of 1 w s] by (simp add: is_int32_def int32_min_def int32_max_def)
qed

theorem register_for_terminates_witness:
  "is_int32 int32_max \<and> register_for int32_max 1 (main_init None None None) (cin_of [])
     = (if int32_max < int32_max then Some (register_loop (nat int32_max) (main_init None None None) (cin_of [])) else None)"
proof -
  have i: "is_int32 int32_max" by (simp add: is_int32_def int32_min_def int32_max_def)
  show ?thesis using i register_for_terminates [OF i] by blast
qed

text \<open>C29: \<^verbatim>\<open>registerSingleVolunteer\<close> reads three lines; when each is non-empty after
  trimming, it enqueues the trimmed volunteer at the rear and appends its record to the
  registrant file, keeping the queue well formed, and leaves the input after the third
  line; when the first line is blank it changes nothing and reads no further.\<close>

theorem register_single_spec:
  assumes "vq_inv (queue w)" "trim n \<noteq> []" "trim c \<noteq> []" "trim k \<noteq> []"
    and "CHR 0x0A \<notin> set n" "CHR 0x0A \<notin> set c" "CHR 0x0A \<notin> set k"
  shows "vq_inv (queue (fst (registerSingleVolunteer w (cin_of (input_lines [n, c, k] @ rest)))))
    \<and> queue_list (queue (fst (registerSingleVolunteer w (cin_of (input_lines [n, c, k] @ rest)))))
        = queue_list (queue w) @ [\<lparr>name = trim n, contact = trim c, skill = trim k\<rparr>]
    \<and> volunteers_file (fst (registerSingleVolunteer w (cin_of (input_lines [n, c, k] @ rest))))
        = Some ((case volunteers_file w of None \<Rightarrow> [] | Some ls \<Rightarrow> ls)
                @ [volunteer_line \<lparr>name = trim n, contact = trim c, skill = trim k\<rparr>])
    \<and> snd (registerSingleVolunteer w (cin_of (input_lines [n, c, k] @ rest))) = cin_of rest
    \<and> registerSingleVolunteer w (cin_of (input_lines ['' ''] @ rest)) = (w, cin_of rest)"
proof -
  have blank: "trim '' '' = []" by (simp add: trim_chars_def trim_eq)
  have g: "cin_getline [] (cin_of (input_lines ['' ''] @ rest)) = ('' '', cin_of rest)"
    using cin_getline_line [of "'' ''" "[]" rest] by simp
  have "registerSingleVolunteer w (cin_of (input_lines ['' ''] @ rest)) = (w, cin_of rest)"
    using g blank by (simp add: registerSingleVolunteer_def)
  then show ?thesis
    using assms by (simp add: registerSingleVolunteer_def Let_def enqueue_inv_list saveVolunteerToFile_def)
qed

theorem register_single_spec_witness:
  "vq_inv (queue (main_init None None None)) \<and> trim '' Ana '' \<noteq> [] \<and> trim ''555'' \<noteq> [] \<and> trim ''medic'' \<noteq> []
   \<and> CHR 0x0A \<notin> set '' Ana '' \<and> CHR 0x0A \<notin> set ''555'' \<and> CHR 0x0A \<notin> set ''medic''
   \<and> vq_inv (queue (fst (registerSingleVolunteer (main_init None None None) (cin_of (input_lines ['' Ana '', ''555'', ''medic''] @ [])))))
   \<and> queue_list (queue (fst (registerSingleVolunteer (main_init None None None) (cin_of (input_lines ['' Ana '', ''555'', ''medic''] @ [])))))
        = queue_list (queue (main_init None None None)) @ [\<lparr>name = trim '' Ana '', contact = trim ''555'', skill = trim ''medic''\<rparr>]
   \<and> volunteers_file (fst (registerSingleVolunteer (main_init None None None) (cin_of (input_lines ['' Ana '', ''555'', ''medic''] @ []))))
        = Some ((case volunteers_file (main_init None None None) of None \<Rightarrow> [] | Some ls \<Rightarrow> ls)
                @ [volunteer_line \<lparr>name = trim '' Ana '', contact = trim ''555'', skill = trim ''medic''\<rparr>])
   \<and> snd (registerSingleVolunteer (main_init None None None) (cin_of (input_lines ['' Ana '', ''555'', ''medic''] @ []))) = cin_of []
   \<and> registerSingleVolunteer (main_init None None None) (cin_of (input_lines ['' ''] @ [])) = (main_init None None None, cin_of [])"
proof -
  have q: "vq_inv (queue (main_init None None None))" by (rule main_init_inv)
  have t: "trim '' Ana '' \<noteq> []" "trim ''555'' \<noteq> []" "trim ''medic'' \<noteq> []" by code_simp+
  have l: "CHR 0x0A \<notin> set '' Ana ''" "CHR 0x0A \<notin> set ''555''" "CHR 0x0A \<notin> set ''medic''" by simp_all
  show ?thesis using q t l register_single_spec [OF q t l, of "[]"] by blast
qed

text \<open>The specification's invariant that a volunteer in the ledger is never also in
  the queue does not hold: registering the same volunteer twice and deploying once,
  from an empty start, reaches a world where Ana is both queued and in the ledger.\<close>

theorem queue_ledger_overlap:
  "\<exists>w. reachable w \<and> \<lparr>name = ''Ana'', contact = ''555'', skill = ''medic''\<rparr> \<in> set (queue_list (queue w)) \<and> \<lparr>name = ''Ana'', contact = ''555'', skill = ''medic''\<rparr> \<in> set (ledger_vols w)"
proof -
  have "case main (Some []) (Some []) (Some [''A 0 10'']) (input_lines [''1'', ''2'', ''2'', ''Ana'', ''555'', ''medic'', ''Ana'', ''555'', ''medic'', '''', ''2'', '''', ''4'']) of
          Some (Inr w) \<Rightarrow> \<lparr>name = ''Ana'', contact = ''555'', skill = ''medic''\<rparr> \<in> set (queue_list (queue w)) \<and> \<lparr>name = ''Ana'', contact = ''555'', skill = ''medic''\<rparr> \<in> set (ledger_vols w)
        | _ \<Rightarrow> False"
    by code_simp
  then obtain w where m: "main (Some []) (Some []) (Some [''A 0 10'']) (input_lines [''1'', ''2'', ''2'', ''Ana'', ''555'', ''medic'', ''Ana'', ''555'', ''medic'', '''', ''2'', '''', ''4'']) = Some (Inr w)"
    and "\<lparr>name = ''Ana'', contact = ''555'', skill = ''medic''\<rparr> \<in> set (queue_list (queue w))" "\<lparr>name = ''Ana'', contact = ''555'', skill = ''medic''\<rparr> \<in> set (ledger_vols w)"
    by (auto split: option.splits sum.splits)
  then show ?thesis using main_loop_result [OF m [unfolded main_def] reachable.start] by blast
qed

end
