(* ===== verification/Session.thy ===== *)
theory Session
  imports Menu
begin

text \<open>
  Console sessions: what an operator types, command by command, and what \<^verbatim>\<open>main\<close> does
  with it. A \<open>session_cmd\<close> is one pass through the menu as the operator means it
  (register one volunteer, register several through the submenu, deploy, view); \<open>cmd_lines\<close>
  is the console lines that pass reads, the Enter of \<^verbatim>\<open>pauseForUser\<close> included, and
  \<open>cmd_step\<close> its effect on the world: registration appends to the queue and to the registrant
  file, deployment is \<open>deployVolunteer\<close>, viewing changes nothing. \<open>session_refines\<close> shows
  that the stream-level loop of theory \<open>Menu\<close> implements this command-level semantics
  for every sequence of commands whose typed fields are well formed.
\<close>

datatype session_cmd =
    Register_single volunteer
  | Register_many "volunteer list"
  | Deploy_next
  | View_all

definition register_all :: "world \<Rightarrow> volunteer list \<Rightarrow> world" where
  "register_all w vs = foldl (\<lambda>w v. w\<lparr>queue := enqueue (queue w) v,
                                        volunteers_file := saveVolunteerToFile v (volunteers_file w)\<rparr>) w vs"

definition field_lines :: "volunteer list \<Rightarrow> string list" where
  "field_lines vs = concat (map (\<lambda>v. [name v, contact v, skill v]) vs)"

fun cmd_lines :: "session_cmd \<Rightarrow> string list" where
  "cmd_lines (Register_single v) = [''1'', ''1''] @ field_lines [v] @ ['''']"
| "cmd_lines (Register_many vs) =
     [''1'', ''2'', show_int (int (length vs))] @ (if 50 < length vs then [''y''] else [])
       @ field_lines vs @ ['''']"
| "cmd_lines Deploy_next = [''2'', '''']"
| "cmd_lines View_all = [''3'', '''']"

fun cmd_step :: "world \<Rightarrow> session_cmd \<Rightarrow> world" where
  "cmd_step w (Register_single v) = register_all w [v]"
| "cmd_step w (Register_many vs) = register_all w vs"
| "cmd_step w Deploy_next = (case deployVolunteer w of Inl _ \<Rightarrow> w | Inr (_, w') \<Rightarrow> w')"
| "cmd_step w View_all = w"

text \<open>A volunteer as it can be typed: fields without line breaks, as \<^verbatim>\<open>trim\<close> leaves them
  and not empty; registering several also reserves the word \<open>skip\<close>.\<close>

definition typed_ok :: "volunteer \<Rightarrow> bool" where
  "typed_ok v \<longleftrightarrow> fields_ok v
     \<and> CHR 0x0A \<notin> set (name v) \<and> CHR 0x0A \<notin> set (contact v) \<and> CHR 0x0A \<notin> set (skill v)"

fun cmd_ok :: "session_cmd \<Rightarrow> bool" where
  "cmd_ok (Register_single v) = typed_ok v"
| "cmd_ok (Register_many vs) =
     (vs \<noteq> [] \<and> int (length vs) < int32_max
      \<and> list_all (\<lambda>v. typed_ok v \<and> name v \<noteq> ''skip'' \<and> contact v \<noteq> ''skip'' \<and> skill v \<noteq> ''skip'') vs)"
| "cmd_ok _ = True"

definition session :: "session_cmd list \<Rightarrow> string" where
  "session cs = input_lines (concat (map cmd_lines cs) @ [''4''])"

subsection \<open>Reading typed lines\<close>

declare input_lines_append [simp]

lemma field_lines_Cons [simp]: "field_lines (v # vs) = [name v, contact v, skill v] @ field_lines vs"
  by (simp add: field_lines_def)

lemma field_lines_Nil [simp]: "field_lines [] = []"
  by (simp add: field_lines_def)

lemma register_all_Cons:
  "register_all w (v # vs) = register_all (w\<lparr>queue := enqueue (queue w) v,
      volunteers_file := saveVolunteerToFile v (volunteers_file w)\<rparr>) vs"
  by (simp add: register_all_def)

lemma register_all_inv: "vq_inv (queue w) \<Longrightarrow> vq_inv (queue (register_all w vs))"
  by (induction vs arbitrary: w) (simp_all add: register_all_def enqueue_inv_list)

lemma volunteer_eta [simp]: "\<lparr>name = name v, contact = contact v, skill = skill v\<rparr> = v"
  by (cases v) simp

lemma typed_ok_fields:
  "typed_ok v \<Longrightarrow> trim (name v) = name v \<and> trim (contact v) = contact v \<and> trim (skill v) = skill v
     \<and> name v \<noteq> [] \<and> contact v \<noteq> [] \<and> skill v \<noteq> []"
  by (simp add: typed_ok_def fields_ok_def)

lemma registerSingleVolunteer_typed:
  "typed_ok v \<Longrightarrow>
     registerSingleVolunteer w (cin_of (input_lines (field_lines [v]) @ r)) = (register_all w [v], cin_of r)"
  using typed_ok_fields [of v]
  by (simp add: typed_ok_def registerSingleVolunteer_def register_all_def Let_def)

lemma register_one_typed:
  "typed_ok v \<Longrightarrow> name v \<noteq> ''skip'' \<Longrightarrow> contact v \<noteq> ''skip'' \<Longrightarrow> skill v \<noteq> ''skip'' \<Longrightarrow>
     register_one w (cin_of (input_lines [name v, contact v, skill v] @ r))
       = (register_all w [v], cin_of r)"
  using typed_ok_fields [of v]
  by (simp add: typed_ok_def register_one_def register_all_def Let_def)

lemma register_loop_typed:
  "list_all (\<lambda>v. typed_ok v \<and> name v \<noteq> ''skip'' \<and> contact v \<noteq> ''skip'' \<and> skill v \<noteq> ''skip'') vs \<Longrightarrow>
     register_loop (length vs) w (cin_of (input_lines (field_lines vs) @ r)) = (register_all w vs, cin_of r)"
proof (induction vs arbitrary: w)
  case (Cons v vs)
  then show ?case
    using register_one_typed [of v w "input_lines (field_lines vs) @ r"]
    by (simp add: register_all_Cons register_all_def)
qed (simp add: register_all_def)

lemma registerVolunteer_single:
  assumes "typed_ok v"
  shows "registerVolunteer w (cin_of (input_lines (''1'' # field_lines [v] @ ls))) = Some (Inr (register_all w [v], cin_of (input_lines ls)))"
proof -
  have "cin_ignore \<lparr>buf = CHR 0x0A # input_lines (field_lines [v] @ ls), good = True\<rparr> = cin_of (input_lines (field_lines [v] @ ls))"
    using cin_ignore_line [of "[]"] by simp
  then show ?thesis
    using cin_int_line [of 1 None "field_lines [v] @ ls"] registerSingleVolunteer_typed [OF assms, of w "input_lines ls"]
    by (simp add: registerVolunteer_def is_int32_def int32_min_def int32_max_def)
qed

lemma registerMultipleVolunteers_typed:
  assumes "cmd_ok (Register_many vs)"
  shows "registerMultipleVolunteers w (cin_of (input_lines (show_int (int (length vs)) #
            (if 50 < length vs then [''y''] else []) @ field_lines vs @ ls)))
         = Some (Inr (register_all w vs, cin_of (input_lines ls)))"
proof -
  let ?n = "int (length vs)" and ?c = "if 50 < length vs then [''y''] else []"
  have n: "is_int32 ?n" "?n < int32_max" "0 < ?n" using assms by (auto simp: is_int32_def int32_min_def)
  have i: "cin_ignore \<lparr>buf = CHR 0x0A # input_lines (?c @ field_lines vs @ ls), good = True\<rparr>
      = cin_of (input_lines (?c @ field_lines vs @ ls))"
    using cin_ignore_line [of "[]"] by simp
  have f: "register_for ?n 1 w (cin_of (input_lines (field_lines vs @ ls))) = Some (register_all w vs, cin_of (input_lines ls))"
    using register_for_loop [of 1 ?n w] n register_loop_typed [of vs w "input_lines ls"] assms
    by (simp add: is_int32_def int32_min_def int32_max_def)
  show ?thesis
  proof (cases "50 < length vs")
    case True
    have "cin_getline [] (cin_of (input_lines ([''y''] @ field_lines vs @ ls))) = (''y'', cin_of (input_lines (field_lines vs @ ls)))"
      using cin_getline_line [of "''y''"] by simp
    then show ?thesis using True cin_int_line [OF n(1), of None "?c @ field_lines vs @ ls"] i f n(3)
      by (simp add: registerMultipleVolunteers_def)
  next
    case False
    then show ?thesis using cin_int_line [OF n(1), of None "?c @ field_lines vs @ ls"] i f n(3)
      by (simp add: registerMultipleVolunteers_def)
  qed
qed

lemma registerVolunteer_many:
  assumes "cmd_ok (Register_many vs)"
  shows "registerVolunteer w (cin_of (input_lines (''2'' # show_int (int (length vs)) #
            (if 50 < length vs then [''y''] else []) @ field_lines vs @ ls)))
         = Some (Inr (register_all w vs, cin_of (input_lines ls)))"
proof -
  let ?r = "show_int (int (length vs)) # (if 50 < length vs then [''y''] else []) @ field_lines vs @ ls"
  have "cin_ignore \<lparr>buf = CHR 0x0A # input_lines ?r, good = True\<rparr> = cin_of (input_lines ?r)"
    using cin_ignore_line [of "[]"] by simp
  then show ?thesis
    using cin_int_line [of 2 None ?r] registerMultipleVolunteers_typed [OF assms, of w ls]
    by (simp add: registerVolunteer_def is_int32_def int32_min_def int32_max_def)
qed

lemma cmd_step_inv: "vq_inv (queue w) \<Longrightarrow> vq_inv (queue (cmd_step w c))"
  using deploy_total [of w] by (cases c) (auto simp: register_all_inv split: sum.splits)

lemma main_loop_cmd:
  assumes "vq_inv (queue w)" "cmd_ok c"
  shows "\<exists>y. main_loop x w (cin_of (input_lines (cmd_lines c @ ls))) = main_loop y (cmd_step w c) (cin_of (input_lines ls))"
proof (cases c)
  case (Register_single v)
  then show ?thesis
    using main_loop_line [of 1 w "''1'' # field_lines [v] @ [] # ls" "register_all w [v]" ls x]
      registerVolunteer_single [of v w "[] # ls"] assms(2)
    by (auto simp: menu_step_def is_int32_def int32_min_def int32_max_def)
next
  case (Register_many vs)
  then show ?thesis
    using main_loop_line [of 1 w "''2'' # show_int (int (length vs)) # (if 50 < length vs then [''y''] else []) @ field_lines vs @ [] # ls"
        "register_all w vs" ls x]
      registerVolunteer_many [of vs w "[] # ls"] assms(2)
    by (auto simp: menu_step_def is_int32_def int32_min_def int32_max_def)
next
  case Deploy_next
  obtain out w1 where d: "deployVolunteer w = Inr (out, w1)" using deploy_total [OF assms(1)] by blast
  then show ?thesis using Deploy_next main_loop_deploy [OF d, of x ls] by auto
next
  case View_all
  then show ?thesis
    using main_loop_line [of 3 w "[] # ls" w ls x] by (auto simp: menu_step_def is_int32_def int32_min_def int32_max_def)
qed

lemma main_loop_session:
  "vq_inv (queue w) \<Longrightarrow> list_all cmd_ok cs \<Longrightarrow> main_loop x w (cin_of (session cs)) = Some (Inr (foldl cmd_step w cs))"
proof (induction cs arbitrary: x w)
  case Nil
  then show ?case using main_loop_quit [of x w "[]"] by (simp add: session_def)
next
  case (Cons c cs)
  obtain y where "main_loop x w (cin_of (input_lines (cmd_lines c @ concat (map cmd_lines cs) @ [''4''])))
      = main_loop y (cmd_step w c) (cin_of (input_lines (concat (map cmd_lines cs) @ [''4''])))"
    using main_loop_cmd [OF Cons.prems(1), of c x "concat (map cmd_lines cs) @ [''4'']"] Cons.prems(2) by auto
  then show ?case using Cons.IH [of "cmd_step w c" y] cmd_step_inv [OF Cons.prems(1)] Cons.prems(2)
    by (simp add: session_def)
qed

subsection \<open>Sessions refine command sequences\<close>

text \<open>C14: Refinement of the shell: for every data files and every sequence of menu commands
  whose typed fields are well formed (trimmed, non-empty, one line each; no \<open>skip\<close> in a
  batch, fewer than \<^verbatim>\<open>INT_MAX\<close> volunteers), typing the session and then Exit makes
  \<^verbatim>\<open>main\<close> return normally in the world the command-level semantics computes: each
  registration appends to queue and file, each Deploy is one \<^verbatim>\<open>deployVolunteer\<close>.\<close>

theorem session_refines:
  assumes "list_all cmd_ok cs"
  shows "main vf df sf (session cs) = Some (Inr (foldl cmd_step (main_init vf df sf) cs))"
  using main_loop_session [OF main_init_inv assms] by (simp add: main_def)

theorem session_refines_witness:
  "list_all cmd_ok [Register_single \<lparr>name = ''Ana'', contact = ''555'', skill = ''medic''\<rparr>,
        Register_many [\<lparr>name = ''Ben'', contact = ''556'', skill = ''driver''\<rparr>, \<lparr>name = ''Cy'', contact = ''557'', skill = ''cook''\<rparr>],
        Deploy_next, View_all]
   \<and> main None (Some []) (Some [''A 0 10''])
       (session [Register_single \<lparr>name = ''Ana'', contact = ''555'', skill = ''medic''\<rparr>,
        Register_many [\<lparr>name = ''Ben'', contact = ''556'', skill = ''driver''\<rparr>, \<lparr>name = ''Cy'', contact = ''557'', skill = ''cook''\<rparr>],
        Deploy_next, View_all])
     = Some (Inr (foldl cmd_step (main_init None (Some []) (Some [''A 0 10'']))
        [Register_single \<lparr>name = ''Ana'', contact = ''555'', skill = ''medic''\<rparr>,
        Register_many [\<lparr>name = ''Ben'', contact = ''556'', skill = ''driver''\<rparr>, \<lparr>name = ''Cy'', contact = ''557'', skill = ''cook''\<rparr>],
        Deploy_next, View_all]))"
proof -
  have ok: "list_all cmd_ok [Register_single \<lparr>name = ''Ana'', contact = ''555'', skill = ''medic''\<rparr>,
        Register_many [\<lparr>name = ''Ben'', contact = ''556'', skill = ''driver''\<rparr>, \<lparr>name = ''Cy'', contact = ''557'', skill = ''cook''\<rparr>],
        Deploy_next, View_all]"
    by code_simp
  show ?thesis using ok session_refines [OF ok] by blast
qed

end
