(* ===== verification/Files.thy ===== *)
theory Files
  imports Console
begin

text \<open>
  The data files of \<^verbatim>\<open>src/main.cpp\<close> as the characters on disk (\<open>string option\<close>,
  \<open>None\<close> when the file does not exist). The rest of the development sees a file as the
  list of its lines; \<open>file_lines\<close> is that view, the \<^verbatim>\<open>while (std::getline(file, line))\<close>
  loop every reader runs. The writers are modelled here byte for byte:
  \<^item> \<open>needs_newline\<close>: the \<^verbatim>\<open>std::ifstream checkFile\<close> block of the two appenders, which
    seeks to the last character and asks for a line break when it is not \<^verbatim>\<open>'\n'\<close>
    (\<^verbatim>\<open>seekg(-1, std::ios::end)\<close> fails on an empty file, so an empty file needs none);
  \<^item> \<open>saveVolunteerToFile_disk\<close> and \<open>saveDeployedVolunteer_disk\<close>: the
    \<^verbatim>\<open>std::ofstream(filename, std::ios::app)\<close> append of the optional line break and the
    record ended by \<^verbatim>\<open>std::endl\<close> (the stream creates a missing file);
  \<^item> \<open>saveReliefSites_disk\<close>: the truncating \<^verbatim>\<open>std::ofstream\<close> and one line per site.
  The theorems show that these refine the line-level writers of theory \<open>Storage\<close>
  (\<open>append_refines\<close>, and \<open>save_sites_disk_lines\<close> on the way to the byte-level
  round trip \<open>disk_sites_roundtrip\<close>): reading the written file back line by line
  gives exactly what the line-level model says, whatever the file held before, including a
  last line without its line break. Opening a file for writing is assumed to succeed (the
  data directory exists); the warnings printed on failure are not modelled.
\<close>

function file_lines :: "string \<Rightarrow> string list" where
  "file_lines s = (case getline_delim CHR 0x0A s of None \<Rightarrow> [] | Some (l, r) \<Rightarrow> l # file_lines r)"
  by pat_completeness auto
termination
proof (relation "measure length", goal_cases)
  case 1
  show ?case by simp
next
  case (2 s x l r)
  then have "s \<noteq> []" and r: "r = drop 1 (dropWhile (\<lambda>c. c \<noteq> CHR 0x0A) s)"
    by (auto simp: getline_delim_def split: if_splits)
  then have "0 < length s" by simp
  moreover have "length (dropWhile (\<lambda>c. c \<noteq> CHR 0x0A) s) \<le> length s" by (rule length_dropWhile_le)
  moreover have "length r = length (dropWhile (\<lambda>c. c \<noteq> CHR 0x0A) s) - 1" by (simp add: r)
  ultimately show ?case by (simp only: in_measure)
qed

declare file_lines.simps [simp del]

definition needs_newline :: "string option \<Rightarrow> bool" where
  "needs_newline f = (case f of None \<Rightarrow> False | Some c \<Rightarrow> c \<noteq> [] \<and> last c \<noteq> CHR 0x0A)"

definition saveVolunteerToFile_disk :: "volunteer \<Rightarrow> string option \<Rightarrow> string option" where
  "saveVolunteerToFile_disk v f =
     (let needsNewline = needs_newline f in
      Some ((case f of None \<Rightarrow> [] | Some c \<Rightarrow> c) @ (if needsNewline then [CHR 0x0A] else [])
            @ name v @ '','' @ contact v @ '','' @ skill v @ [CHR 0x0A]))"

definition saveDeployedVolunteer_disk :: "volunteer \<Rightarrow> string option \<Rightarrow> string option" where
  "saveDeployedVolunteer_disk v f =
     (let needsNewline = needs_newline f in
      Some ((case f of None \<Rightarrow> [] | Some c \<Rightarrow> c) @ (if needsNewline then [CHR 0x0A] else [])
            @ name v @ '','' @ contact v @ '','' @ skill v @ [CHR 0x0A]))"

definition saveReliefSites_disk :: "relief_site clist \<Rightarrow> string option" where
  "saveReliefSites_disk sites =
     iter_fold (\<lambda>file s. file @ site_name s @ '' '' @ show_int (currentCount s) @ '' '' @ show_int (maxCapacity s) @ [CHR 0x0A])
       (nodes sites) (head sites) (length (nodes sites)) []"

subsection \<open>The line view of a file\<close>

lemma file_lines_Nil [simp]: "file_lines [] = []"
  by (simp add: file_lines.simps getline_delim_def)

lemma file_lines_line [simp]:
  "CHR 0x0A \<notin> set l \<Longrightarrow> file_lines (l @ CHR 0x0A # r) = l # file_lines r"
  by (subst file_lines.simps) (auto simp: getline_delim_def takeWhile_tail)

lemma file_lines_last:
  assumes "CHR 0x0A \<notin> set l" "l \<noteq> []"
  shows "file_lines l = [l]"
proof -
  have d: "dropWhile (\<lambda>c. c \<noteq> CHR 0x0A) l = []" and t: "takeWhile (\<lambda>c. c \<noteq> CHR 0x0A) l = l"
    using assms(1) by (auto simp: dropWhile_eq_Nil_conv takeWhile_eq_all_conv)
  show ?thesis by (subst file_lines.simps) (simp add: getline_delim_def d t assms(2))
qed

lemma file_lines_no_newline: "l \<in> set (file_lines c) \<Longrightarrow> CHR 0x0A \<notin> set l"
proof (induction c rule: file_lines.induct)
  case (1 s)
  then show ?case
    by (subst (asm) file_lines.simps) (auto simp: getline_delim_def split: if_splits dest: set_takeWhileD)
qed

text \<open>Writing the lines read from a file gives the file back, with a line break added
  after a last line that had none.\<close>

lemma input_lines_file_lines:
  "input_lines (file_lines c) = c @ (if needs_newline (Some c) then [CHR 0x0A] else [])"
proof (induction c rule: file_lines.induct)
  case (1 s)
  show ?case
  proof (cases "CHR 0x0A \<in> set s")
    case True
    then obtain l r where s: "s = l @ CHR 0x0A # r" and l: "CHR 0x0A \<notin> set l"
      using split_list_first by (metis split_list_first)
    have "getline_delim CHR 0x0A s = Some (l, r)" using s l by (auto simp: getline_delim_def takeWhile_tail)
    then have "input_lines (file_lines r) = r @ (if needs_newline (Some r) then [CHR 0x0A] else [])"
      using 1 by simp
    then show ?thesis using s l by (cases "r = []") (auto simp: needs_newline_def)
  next
    case False
    then show ?thesis
      by (cases "s = []") (auto simp: file_lines_last needs_newline_def dest: last_in_set)
  qed
qed

lemma file_lines_input_lines:
  "list_all (\<lambda>l. CHR 0x0A \<notin> set l) ls \<Longrightarrow> file_lines (input_lines ls) = ls"
  by (induction ls) simp_all

text \<open>One appended record: the file read back has one more line, whether or not the old
  file ended with a line break.\<close>

lemma file_lines_append_line:
  assumes "CHR 0x0A \<notin> set l"
  shows "file_lines (c @ (if needs_newline (Some c) then [CHR 0x0A] else []) @ l @ [CHR 0x0A]) = file_lines c @ [l]"
proof -
  have "c @ (if needs_newline (Some c) then [CHR 0x0A] else []) @ l @ [CHR 0x0A] = input_lines (file_lines c @ [l])"
    by (simp add: input_lines_append input_lines_file_lines)
  moreover have "list_all (\<lambda>l. CHR 0x0A \<notin> set l) (file_lines c @ [l])"
    using assms by (auto simp: list_all_iff dest: file_lines_no_newline)
  ultimately show ?thesis by (simp add: file_lines_input_lines)
qed

lemma append_disk_lines:
  assumes "CHR 0x0A \<notin> set (volunteer_line v)"
  shows "map_option file_lines (Some ((case f of None \<Rightarrow> [] | Some c \<Rightarrow> c) @ (if needs_newline f then [CHR 0x0A] else [])
            @ name v @ '','' @ contact v @ '','' @ skill v @ [CHR 0x0A]))
         = Some ((case map_option file_lines f of None \<Rightarrow> [] | Some ls \<Rightarrow> ls) @ [volunteer_line v])"
proof (cases f)
  case None
  then show ?thesis using file_lines_append_line [OF assms, of "[]"]
    by (simp add: needs_newline_def volunteer_line_def)
next
  case (Some c)
  then show ?thesis using file_lines_append_line [OF assms, of c] by (simp add: volunteer_line_def)
qed

lemma show_int_no_newline: "CHR 0x0A \<notin> set (show_int i)"
  using show_nat_digits [of "nat (- i)"] show_nat_digits [of "nat i"]
  by (auto simp: show_int_def is_digit_def)

lemma site_line_no_newline: "CHR 0x0A \<notin> set (site_line s) \<longleftrightarrow> CHR 0x0A \<notin> set (site_name s)"
  by (simp add: site_line_def show_int_no_newline)

lemma foldl_site_disk:
  "foldl (\<lambda>file s. file @ site_name s @ '' '' @ show_int (currentCount s) @ '' '' @ show_int (maxCapacity s) @ [CHR 0x0A]) acc xs
   = acc @ input_lines (map site_line xs)"
  by (induction xs arbitrary: acc) (simp_all add: site_line_def)

lemma save_sites_disk_lines:
  assumes "ll_inv sites" "list_all (\<lambda>s. CHR 0x0A \<notin> set (site_name s)) (contents sites)"
  shows "map_option file_lines (saveReliefSites_disk sites) = saveReliefSites sites"
proof -
  have "list_all (\<lambda>l. CHR 0x0A \<notin> set l) (map site_line (contents sites))"
    using assms(2) by (simp add: list_all_iff site_line_no_newline)
  moreover have "saveReliefSites_disk sites = Some (input_lines (map site_line (contents sites)))"
    by (simp only: saveReliefSites_disk_def ll_inv_iter_fold [OF assms(1)] foldl_site_disk append_Nil)
  ultimately show ?thesis using assms(1) by (simp add: saveReliefSites_contents file_lines_input_lines)
qed

subsection \<open>Refinement of the line model\<close>

text \<open>C9: Appending a volunteer record with \<^verbatim>\<open>saveVolunteerToFile\<close> or
  \<^verbatim>\<open>saveDeployedVolunteer\<close> to the bytes of a data file, with the \<^verbatim>\<open>needsNewline\<close>
  check on its last character, adds exactly one line to the file read back with
  \<^verbatim>\<open>std::getline\<close>, the record, after the file's old lines: the line model of the appenders
  is what the stream writes give, also when the old file ends without a line break.\<close>

theorem append_refines:
  assumes "CHR 0x0A \<notin> set (volunteer_line v)"
  shows "map_option file_lines (saveVolunteerToFile_disk v f) = saveVolunteerToFile v (map_option file_lines f)
         \<and> map_option file_lines (saveDeployedVolunteer_disk v f) = saveDeployedVolunteer v (map_option file_lines f)"
  using append_disk_lines [OF assms, of f]
  by (simp add: saveVolunteerToFile_disk_def saveDeployedVolunteer_disk_def saveVolunteerToFile_def
      saveDeployedVolunteer_def Let_def)

theorem append_refines_witness:
  "saveVolunteerToFile_disk \<lparr>name = ''Ann'', contact = ''555'', skill = ''Medic''\<rparr> (Some ''Bob,1,Cook'')
     = Some (input_lines [''Bob,1,Cook'', ''Ann,555,Medic''])
   \<and> map_option file_lines (saveVolunteerToFile_disk \<lparr>name = ''Ann'', contact = ''555'', skill = ''Medic''\<rparr> (Some ''Bob,1,Cook''))
     = Some [''Bob,1,Cook'', ''Ann,555,Medic'']
   \<and> map_option file_lines (saveDeployedVolunteer_disk \<lparr>name = ''Ann'', contact = ''555'', skill = ''Medic''\<rparr> None)
     = Some [''Ann,555,Medic'']"
proof -
  have h: "CHR 0x0A \<notin> set (volunteer_line \<lparr>name = ''Ann'', contact = ''555'', skill = ''Medic''\<rparr>)"
    by (simp add: volunteer_line_def)
  have l: "file_lines ''Bob,1,Cook'' = [''Bob,1,Cook'']" by code_simp
  show ?thesis using append_refines [OF h, of "Some ''Bob,1,Cook''"] append_refines [OF h, of None] l
    by (simp add: saveVolunteerToFile_disk_def needs_newline_def saveVolunteerToFile_def
        saveDeployedVolunteer_def volunteer_line_def)
qed

text \<open>C27: The relief-site file survives a save and a reload byte for byte: reading back, with
  \<^verbatim>\<open>loadReliefSites\<close>' \<^verbatim>\<open>std::getline\<close> loop, the file \<^verbatim>\<open>saveReliefSites\<close> writes
  gives the same sites in the same order, for every well-formed site list whose names are
  non-empty words and whose counters are 32-bit values.\<close>

theorem disk_sites_roundtrip:
  assumes "ll_inv sites"
    and "list_all (\<lambda>s. site_name s \<noteq> [] \<and> list_all (\<lambda>c. \<not> is_space c) (site_name s)
           \<and> is_int32 (currentCount s) \<and> is_int32 (maxCapacity s)) (contents sites)"
  shows "ll_inv (loadReliefSites (map_option file_lines (saveReliefSites_disk sites)))
         \<and> contents (loadReliefSites (map_option file_lines (saveReliefSites_disk sites))) = contents sites"
proof -
  have "list_all (\<lambda>s. CHR 0x0A \<notin> set (site_name s)) (contents sites)"
    using assms(2) by (auto simp: list_all_iff is_space_def)
  then have "map_option file_lines (saveReliefSites_disk sites) = saveReliefSites sites"
    by (rule save_sites_disk_lines [OF assms(1)])
  then show ?thesis using load_save_sites [OF assms(1)] assms(2) by (simp add: list_all_iff)
qed

theorem disk_sites_roundtrip_witness:
  "contents (loadReliefSites (map_option file_lines (saveReliefSites_disk (foldl push_back empty_clist [\<lparr>site_name = ''CampA'', currentCount = 9, maxCapacity = 10\<rparr>, \<lparr>site_name = ''CampB'', currentCount = 2, maxCapacity = 10\<rparr>]))))
   = [\<lparr>site_name = ''CampA'', currentCount = 9, maxCapacity = 10\<rparr>, \<lparr>site_name = ''CampB'', currentCount = 2, maxCapacity = 10\<rparr>]"
proof -
  have h: "ll_inv (foldl push_back empty_clist [\<lparr>site_name = ''CampA'', currentCount = 9, maxCapacity = 10\<rparr>, \<lparr>site_name = ''CampB'', currentCount = 2, maxCapacity = 10\<rparr>])" by code_simp
  have c: "contents (foldl push_back empty_clist [\<lparr>site_name = ''CampA'', currentCount = 9, maxCapacity = 10\<rparr>, \<lparr>site_name = ''CampB'', currentCount = 2, maxCapacity = 10\<rparr>]) = [\<lparr>site_name = ''CampA'', currentCount = 9, maxCapacity = 10\<rparr>, \<lparr>site_name = ''CampB'', currentCount = 2, maxCapacity = 10\<rparr>]" by code_simp
  have ok: "list_all (\<lambda>s. site_name s \<noteq> [] \<and> list_all (\<lambda>c. \<not> is_space c) (site_name s)
           \<and> is_int32 (currentCount s) \<and> is_int32 (maxCapacity s)) (contents (foldl push_back empty_clist [\<lparr>site_name = ''CampA'', currentCount = 9, maxCapacity = 10\<rparr>, \<lparr>site_name = ''CampB'', currentCount = 2, maxCapacity = 10\<rparr>]))"
    unfolding c by (simp add: is_space_def is_int32_def int32_min_def int32_max_def)
  show ?thesis using disk_sites_roundtrip [OF h ok] c by simp
qed

end
