(* ===== verification/SkillCounter.thy ===== *)
theory SkillCounter
  imports LinkedList VolunteerQueue
begin

text \<open>
  The frequency counter \<^verbatim>\<open>SkillCounter\<close> of \<^verbatim>\<open>include/CustomLists.hpp\<close>: a
  \<^verbatim>\<open>CustomLinkedList<StringCountPair>\<close> searched linearly. \<open>increment\<close> is the
  iterator loop with its early \<^verbatim>\<open>return\<close> (\<open>find_addr\<close> of theory \<open>Chain\<close>) followed by
  an in-place \<^verbatim>\<open>it->count++\<close> or a \<^verbatim>\<open>push_back\<close>; \<open>getCount\<close> is the same search.
  \<open>skill_distribution\<close> is the client in \<^verbatim>\<open>displayVolunteersFromFile\<close>
  (\<^verbatim>\<open>src/main.cpp\<close>): one \<open>increment\<close> per volunteer, then the pairs read in list order.
  The abstract counter is the list of pairs; \<open>inc_list\<close> is increment on it.
\<close>

record skill_count =
  pair_skill :: string
  pair_count :: int

record skill_counter =
  skillList :: "skill_count clist"

definition sc_empty :: skill_counter where
  "sc_empty = \<lparr>skillList = empty_clist\<rparr>"

definition increment :: "skill_counter \<Rightarrow> string \<Rightarrow> skill_counter option" where
  "increment sc k =
     (let l = skillList sc in
      case find_addr (\<lambda>p. pair_skill p = k) (nodes l) (head l) (length (nodes l)) of
        None \<Rightarrow> None
      | Some (Some a) \<Rightarrow>
          Some (sc\<lparr>skillList := l\<lparr>nodes := map_data (nodes l) a
                                     (\<lambda>p. p\<lparr>pair_count := wrap32 (pair_count p + 1)\<rparr>)\<rparr>\<rparr>)
      | Some None \<Rightarrow> Some (sc\<lparr>skillList := push_back l \<lparr>pair_skill = k, pair_count = 1\<rparr>\<rparr>))"

definition getCount :: "skill_counter \<Rightarrow> string \<Rightarrow> int option" where
  "getCount sc k =
     (let l = skillList sc in
      map_option (\<lambda>r. case r of None \<Rightarrow> 0 | Some a \<Rightarrow> pair_count (val_at (nodes l) a))
        (find_addr (\<lambda>p. pair_skill p = k) (nodes l) (head l) (length (nodes l))))"

fun increment_all :: "skill_counter \<Rightarrow> string list \<Rightarrow> skill_counter option" where
  "increment_all sc [] = Some sc"
| "increment_all sc (k # ks) = (case increment sc k of None \<Rightarrow> None | Some sc' \<Rightarrow> increment_all sc' ks)"

definition sc_is_empty :: "skill_counter \<Rightarrow> bool" where
  "sc_is_empty sc \<longleftrightarrow> list_empty (skillList sc)"

definition skill_distribution :: "volunteer list \<Rightarrow> (string \<times> int) list option" where
  "skill_distribution vs =
     (case increment_all sc_empty (map skill vs) of
        None \<Rightarrow> None
      | Some sc \<Rightarrow>
          if sc_is_empty sc then Some []
          else
            map_option (map (\<lambda>p. (pair_skill p, pair_count p)))
              (iter_fold (\<lambda>acc p. acc @ [p]) (nodes (skillList sc)) (head (skillList sc))
                 (length (nodes (skillList sc))) []))"

fun inc_list :: "skill_count list \<Rightarrow> string \<Rightarrow> skill_count list" where
  "inc_list [] k = [\<lparr>pair_skill = k, pair_count = 1\<rparr>]"
| "inc_list (p # ps) k =
     (if pair_skill p = k then p\<lparr>pair_count := wrap32 (pair_count p + 1)\<rparr> # ps else p # inc_list ps k)"

definition lookup_count :: "skill_count list \<Rightarrow> string \<Rightarrow> int" where
  "lookup_count xs k = (case find (\<lambda>p. pair_skill p = k) xs of None \<Rightarrow> 0 | Some p \<Rightarrow> pair_count p)"

subsection \<open>Refinement\<close>

lemma inc_list_update:
  "i < length xs \<Longrightarrow> pair_skill (xs ! i) = k \<Longrightarrow> \<forall>j<i. pair_skill (xs ! j) \<noteq> k \<Longrightarrow>
     inc_list xs k = xs[i := (xs ! i)\<lparr>pair_count := wrap32 (pair_count (xs ! i) + 1)\<rparr>]"
proof (induction xs arbitrary: i)
  case (Cons p ps)
  show ?case
  proof (cases i)
    case 0
    then show ?thesis using Cons.prems by simp
  next
    case (Suc i')
    with Cons.prems have "pair_skill p \<noteq> k" by auto
    moreover have "inc_list ps k = ps[i' := (ps ! i')\<lparr>pair_count := wrap32 (pair_count (ps ! i') + 1)\<rparr>]"
      using Cons.prems Suc by (intro Cons.IH) auto
    ultimately show ?thesis using Suc by simp
  qed
qed simp

lemma inc_list_absent: "\<forall>p\<in>set xs. pair_skill p \<noteq> k \<Longrightarrow> inc_list xs k = xs @ [\<lparr>pair_skill = k, pair_count = 1\<rparr>]"
  by (induction xs) auto

lemma find_vals:
  "find (\<lambda>a. P (val_at ar a)) as = Some a \<Longrightarrow>
     \<exists>i<length as. as ! i = a \<and> P (vals ar as ! i) \<and> (\<forall>j<i. \<not> P (vals ar as ! j))"
  by (auto simp: find_Some_iff vals_def)

lemma find_vals_None: "find (\<lambda>a. P (val_at ar a)) as = None \<Longrightarrow> \<forall>x\<in>set (vals ar as). \<not> P x"
  by (auto simp: find_None_iff vals_def)

lemma increment_refines:
  assumes "ll_inv (skillList sc)"
  shows "\<exists>sc'. increment sc k = Some sc' \<and> ll_inv (skillList sc')
           \<and> contents (skillList sc') = inc_list (contents (skillList sc)) k"
proof -
  let ?l = "skillList sc"
  from assms obtain as where o: "owns (nodes ?l) (head ?l) (tail ?l) as"
    and n: "count ?l = int (length as)" and c: "contents ?l = vals (nodes ?l) as" by (rule ll_invE)
  then have p: "path (nodes ?l) (head ?l) as None" and ch: "chain (nodes ?l) (head ?l) = Some as"
    by (simp_all add: owns_def chain_iff_path)
  have f: "find_addr (\<lambda>p. pair_skill p = k) (nodes ?l) (head ?l) (length (nodes ?l))
      = Some (find (\<lambda>a. pair_skill (val_at (nodes ?l) a) = k) as)"
    by (rule find_addr_chain [OF ch])
  show ?thesis
  proof (cases "find (\<lambda>a. pair_skill (val_at (nodes ?l) a) = k) as")
    case None
    then have "\<forall>x\<in>set (contents ?l). pair_skill x \<noteq> k"
      using c find_vals_None [of "\<lambda>x. pair_skill x = k" "nodes ?l" as] by simp
    then show ?thesis using f None assms
      by (simp add: increment_def push_back_inv push_back_contents inc_list_absent)
  next
    case (Some a)
    from find_vals [of "\<lambda>x. pair_skill x = k" "nodes ?l" as a] Some obtain i where i: "i < length as" "as ! i = a"
      and key: "pair_skill (vals (nodes ?l) as ! i) = k" "\<forall>j<i. pair_skill (vals (nodes ?l) as ! j) \<noteq> k"
      by blast
    let ?g = "\<lambda>p. p\<lparr>pair_count := wrap32 (pair_count p + 1)\<rparr>"
    let ?l' = "?l\<lparr>nodes := map_data (nodes ?l) a ?g\<rparr>"
    have "owns (nodes ?l') (head ?l') (tail ?l') as" using o by (simp add: owns_def set_live_map_data)
    then have inv': "ll_inv ?l'" using n by (auto intro: ll_invI)
    have "contents ?l' = (contents ?l)[i := ?g (contents ?l ! i)]"
      using c ch i vals_map_data [OF p path_distinct [OF p] i(1), of ?g] by (simp add: contents_def)
    also have "\<dots> = inc_list (contents ?l) k"
      using inc_list_update [of i "contents ?l" k] key i c by (simp add: length_vals)
    finally show ?thesis using f Some inv' by (simp add: increment_def Let_def)
  qed
qed


lemma getCount_refines:
  "ll_inv (skillList sc) \<Longrightarrow> getCount sc k = Some (lookup_count (contents (skillList sc)) k)"
proof -
  let ?l = "skillList sc"
  assume "ll_inv ?l"
  then obtain as where o: "owns (nodes ?l) (head ?l) (tail ?l) as"
    and c: "contents ?l = vals (nodes ?l) as" by (rule ll_invE)
  then have ch: "chain (nodes ?l) (head ?l) = Some as" by (simp add: owns_def)
  have "find (\<lambda>p. pair_skill p = k) (vals (nodes ?l) as)
      = map_option (val_at (nodes ?l)) (find (\<lambda>a. pair_skill (val_at (nodes ?l) a) = k) as)"
    by (simp add: vals_def find_map_option comp_def)
  then show ?thesis using c
    by (simp add: getCount_def find_addr_chain [OF ch] lookup_count_def split: option.splits)
qed

lemma increment_all_refines:
  "ll_inv (skillList sc) \<Longrightarrow>
     \<exists>sc'. increment_all sc ks = Some sc' \<and> ll_inv (skillList sc')
       \<and> contents (skillList sc') = foldl inc_list (contents (skillList sc)) ks"
proof (induction ks arbitrary: sc)
  case (Cons k ks)
  from increment_refines [OF Cons.prems] obtain sc1 where
    "increment sc k = Some sc1" "ll_inv (skillList sc1)"
    "contents (skillList sc1) = inc_list (contents (skillList sc)) k" by blast
  with Cons.IH [of sc1] show ?case by auto
qed simp

lemma map_skill_inc_list:
  "map pair_skill (inc_list xs k) = (if k \<in> set (map pair_skill xs) then map pair_skill xs else map pair_skill xs @ [k])"
  by (induction xs) auto

lemma lookup_inc_list:
  "lookup_count (inc_list xs k) k' = (if k' = k then wrap32 (lookup_count xs k + 1) else lookup_count xs k')"
  by (induction xs) (auto simp: lookup_count_def wrap32_def)

lemma foldl_inc_list_keys: "map pair_skill (foldl inc_list [] ks) = rev (remdups (rev ks))"
  by (induction ks rule: rev_induct) (auto simp: map_skill_inc_list)

lemma foldl_inc_list_count:
  "int (length ks) \<le> int32_max \<Longrightarrow> lookup_count (foldl inc_list [] ks) k = int (count_list ks k)"
proof (induction ks arbitrary: k rule: rev_induct)
  case Nil
  then show ?case by (simp add: lookup_count_def)
next
  case (snoc x ks)
  then have ih: "\<And>k. lookup_count (foldl inc_list [] ks) k = int (count_list ks k)" by simp
  have "count_list ks x \<le> length ks" by (induction ks) auto
  then have "is_int32 (int (count_list ks x) + 1)"
    using snoc.prems by (simp add: is_int32_def int32_min_def int32_max_def)
  then show ?case by (simp add: lookup_inc_list ih)
qed

lemma pairs_by_keys:
  "distinct (map pair_skill xs) \<Longrightarrow>
     map (\<lambda>p. (pair_skill p, pair_count p)) xs = map (\<lambda>k. (k, lookup_count xs k)) (map pair_skill xs)"
proof (induction xs)
  case (Cons p ps)
  have "map (\<lambda>k. (k, lookup_count (p # ps) k)) (map pair_skill ps) = map (\<lambda>k. (k, lookup_count ps k)) (map pair_skill ps)"
    using Cons.prems by (auto simp: lookup_count_def)
  then show ?case using Cons by (simp add: lookup_count_def)
qed simp

lemma ll_inv_sc_empty: "ll_inv (skillList sc_empty)" and contents_sc_empty: "contents (skillList sc_empty) = []"
  by (simp_all add: sc_empty_def ll_inv_empty_clist contents_empty_clist)

lemma skill_distribution_counts:
  assumes "int (length vs) \<le> int32_max"
  shows "skill_distribution vs =
           Some (map (\<lambda>k. (k, int (count_list (map skill vs) k))) (rev (remdups (rev (map skill vs)))))"
proof -
  let ?ks = "map skill vs"
  from increment_all_refines [OF ll_inv_sc_empty, of ?ks] obtain sc where
    r: "increment_all sc_empty ?ks = Some sc" "ll_inv (skillList sc)"
    "contents (skillList sc) = foldl inc_list [] ?ks" by (auto simp: contents_sc_empty)
  have d: "distinct (map pair_skill (foldl inc_list [] ?ks))" by (simp add: foldl_inc_list_keys)
  have l: "int (length ?ks) \<le> int32_max" using assms by simp
  have e: "foldl inc_list [] ?ks = [] \<longleftrightarrow> vs = []"
    using foldl_inc_list_keys [of ?ks] by (metis Nil_is_map_conv remdups_eq_nil_iff rev_is_Nil_conv)
  show ?thesis
    using r e pairs_by_keys [OF d] foldl_inc_list_keys [of ?ks] foldl_inc_list_count [OF l]
    by (simp add: skill_distribution_def sc_is_empty_def list_empty_def ll_inv_head ll_inv_iter_fold foldl_snoc_id)
qed

subsection \<open>The counter\<close>

text \<open>Counting skills with \<^verbatim>\<open>increment\<close>: starting from an empty \<^verbatim>\<open>SkillCounter\<close>,
  incrementing the keys \<open>ks\<close> one by one (fewer than \<open>2^31\<close> of them) terminates, keeps the
  list well formed, holds each distinct key once in order of first occurrence, and
  \<^verbatim>\<open>getCount k\<close> returns the number of occurrences of \<open>k\<close> in \<open>ks\<close> (0 for an absent key).\<close>

theorem skill_counter_counts:
  assumes "int (length ks) \<le> int32_max"
  shows "\<exists>sc. increment_all sc_empty ks = Some sc \<and> ll_inv (skillList sc)
           \<and> map pair_skill (contents (skillList sc)) = rev (remdups (rev ks))
           \<and> (\<forall>k. getCount sc k = Some (int (count_list ks k)))"
proof -
  from increment_all_refines [OF ll_inv_sc_empty, of ks] obtain sc where
    r: "increment_all sc_empty ks = Some sc" "ll_inv (skillList sc)"
    "contents (skillList sc) = foldl inc_list [] ks" by (auto simp: contents_sc_empty)
  then show ?thesis
    using foldl_inc_list_keys foldl_inc_list_count [OF assms] by (simp add: getCount_refines)
qed

theorem skill_counter_counts_witness:
  "int (length [''medic'', ''driver'', ''medic'']) \<le> int32_max
   \<and> (\<exists>sc. increment_all sc_empty [''medic'', ''driver'', ''medic''] = Some sc \<and> ll_inv (skillList sc)
       \<and> map pair_skill (contents (skillList sc)) = rev (remdups (rev [''medic'', ''driver'', ''medic'']))
       \<and> (\<forall>k. getCount sc k = Some (int (count_list [''medic'', ''driver'', ''medic''] k))))"
proof -
  have h: "int (length [''medic'', ''driver'', ''medic'']) \<le> int32_max" by (simp add: int32_max_def)
  show ?thesis using h skill_counter_counts [OF h] by blast
qed

text \<open>C28: The skill distribution that \<^verbatim>\<open>displayVolunteersFromFile\<close> prints lists each
  distinct skill once, in order of first occurrence among the volunteers, with the number of
  volunteers having it.\<close>

theorem skill_distribution_correct:
  assumes "int (length vs) \<le> int32_max"
  shows "skill_distribution vs =
           Some (map (\<lambda>k. (k, int (count_list (map skill vs) k))) (rev (remdups (rev (map skill vs)))))"
  using assms by (rule skill_distribution_counts)

theorem skill_distribution_correct_witness:
  "int (length [\<lparr>name = ''Ana'', contact = ''555'', skill = ''medic''\<rparr>, \<lparr>name = ''Ben'', contact = ''777'', skill = ''driver''\<rparr>, \<lparr>name = ''Ana'', contact = ''555'', skill = ''medic''\<rparr>]) \<le> int32_max
   \<and> skill_distribution [\<lparr>name = ''Ana'', contact = ''555'', skill = ''medic''\<rparr>, \<lparr>name = ''Ben'', contact = ''777'', skill = ''driver''\<rparr>, \<lparr>name = ''Ana'', contact = ''555'', skill = ''medic''\<rparr>] =
       Some (map (\<lambda>k. (k, int (count_list (map skill [\<lparr>name = ''Ana'', contact = ''555'', skill = ''medic''\<rparr>, \<lparr>name = ''Ben'', contact = ''777'', skill = ''driver''\<rparr>, \<lparr>name = ''Ana'', contact = ''555'', skill = ''medic''\<rparr>]) k))) (rev (remdups (rev (map skill [\<lparr>name = ''Ana'', contact = ''555'', skill = ''medic''\<rparr>, \<lparr>name = ''Ben'', contact = ''777'', skill = ''driver''\<rparr>, \<lparr>name = ''Ana'', contact = ''555'', skill = ''medic''\<rparr>])))))"
proof -
  have h: "int (length [\<lparr>name = ''Ana'', contact = ''555'', skill = ''medic''\<rparr>, \<lparr>name = ''Ben'', contact = ''777'', skill = ''driver''\<rparr>, \<lparr>name = ''Ana'', contact = ''555'', skill = ''medic''\<rparr>]) \<le> int32_max" by (simp add: int32_max_def)
  show ?thesis using h skill_distribution_correct [OF h] by blast
qed

end
