(* ===== verification/Report.thy ===== *)
theory Report
  imports Storage SkillCounter
begin

text \<open>
  The read-only reports and the file checks of \<^verbatim>\<open>src/main.cpp\<close>, with their output
  modelled as the data they print: \<open>viewRegisteredVolunteers\<close>,
  \<open>displayVolunteersFromFile\<close> (the registrant table and the skill distribution),
  \<open>displayCombinedVolunteerReport\<close> (its four sections and the summary numbers),
  \<open>validateVolunteerFile\<close> (the warnings it prints and the lines it accepts, with its
  comma-counting loop \<open>comma_count\<close>), and \<open>saveAllVolunteersToFile\<close>, which opens the
  registrant file for writing, which truncates it, and writes nothing. The deployment rate
  is computed in \<^verbatim>\<open>double\<close> by the code and in \<open>rat\<close> here.
\<close>

definition viewRegisteredVolunteers :: "vqueue \<Rightarrow> display_out option" where
  "viewRegisteredVolunteers q = (if is_empty_q q then Some Empty_queue_msg else displayAll q)"

datatype file_table =
    No_file
  | No_valid_records
  | Registered_table "(int \<times> volunteer) list" int "(string \<times> int) list option"

definition displayVolunteersFromFile :: "string list option \<Rightarrow> file_table" where
  "displayVolunteersFromFile f =
     (case f of
        None \<Rightarrow> No_file
      | Some ls \<Rightarrow>
          (let vs = List.map_filter parse_volunteer_line ls;
               volunteers = foldl push_back empty_clist vs
           in if list_empty volunteers then No_valid_records
              else (case iter_fold display_step (nodes volunteers) (head volunteers)
                           (length (nodes volunteers)) (1, []) of
                      None \<Rightarrow> No_valid_records
                    | Some (_, rows) \<Rightarrow>
                        Registered_table rows (int (length vs)) (skill_distribution (contents volunteers)))))"

record summary =
  totalRegistered :: int
  currentInQueue :: "int option"
  deployedCount :: int
  deploymentRate :: "rat option"

record combined_report =
  queue_section :: "display_out option"
  deployed_section :: "(int \<times> volunteer) list option"
  history_section :: file_table
  system_summary :: summary

definition displayCombinedVolunteerReport ::
    "vqueue \<Rightarrow> string list option \<Rightarrow> string list option \<Rightarrow> combined_report" where
  "displayCombinedVolunteerReport q volunteers_f deployed_f =
     (let deployed = (case deployed_f of None \<Rightarrow> [] | Some ls \<Rightarrow> List.map_filter parse_volunteer_line ls);
          registered = (case volunteers_f of None \<Rightarrow> [] | Some ls \<Rightarrow> List.map_filter parse_volunteer_line ls);
          deployedCount = int (length deployed);
          totalRegistered = int (length registered)
      in \<lparr>queue_section = (if is_empty_q q then Some Empty_queue_msg else displayAll q),
          deployed_section = map_option (\<lambda>_. zip (map (\<lambda>k. int k + 1) [0..<length deployed]) deployed) deployed_f,
          history_section = displayVolunteersFromFile volunteers_f,
          system_summary =
            \<lparr>totalRegistered = totalRegistered, currentInQueue = queue_size q,
             deployedCount = deployedCount,
             deploymentRate = (if 0 < totalRegistered
                               then Some (of_int deployedCount / of_int totalRegistered * 100) else None)\<rparr>\<rparr>)"

definition comma_count :: "string \<Rightarrow> nat" where
  "comma_count line = foldl (\<lambda>n c. if c = CHR '','' then n + 1 else n) 0 line"

definition validate_step ::
    "nat \<times> (nat \<times> nat \<times> string) list \<times> string list \<Rightarrow> string
       \<Rightarrow> nat \<times> (nat \<times> nat \<times> string) list \<times> string list" where
  "validate_step st line0 =
     (case st of (lineNum, warnings, validLines) \<Rightarrow>
        (let lineNum' = lineNum + 1; line = trim line0 in
         if line = [] then (lineNum', warnings, validLines)
         else (let commaCount = comma_count line in
               if commaCount \<noteq> 2 then (lineNum', warnings @ [(lineNum', commaCount, line)], validLines)
               else (lineNum', warnings, validLines @ [line]))))"

definition validateVolunteerFile :: "string list option \<Rightarrow> (nat \<times> nat \<times> string) list \<times> string list" where
  "validateVolunteerFile f =
     (case f of
        None \<Rightarrow> ([], [])
      | Some ls \<Rightarrow> (case foldl validate_step (0, [], []) ls of (_, warnings, validLines) \<Rightarrow> (warnings, validLines)))"

definition saveAllVolunteersToFile :: "vqueue \<Rightarrow> string list option \<Rightarrow> string list option" where
  "saveAllVolunteersToFile q f = Some []"

subsection \<open>Comma counting and validation\<close>

lemma comma_count_foldl: "foldl (\<lambda>n c. if c = CHR '','' then n + 1 else n) n0 s = n0 + count_list s CHR '',''"
  by (induction s arbitrary: n0) auto

lemma comma_count_eq: "comma_count s = count_list s CHR '',''"
  by (simp add: comma_count_def comma_count_foldl)

lemma count_list_dropWhile: "\<not> P c \<Longrightarrow> count_list (dropWhile P xs) c = count_list xs c"
  by (induction xs) auto

lemma count_list_rev: "count_list (rev xs) c = count_list xs c"
  by (induction xs) auto

lemma comma_count_trim: "comma_count (trim s) = comma_count s"
proof -
  have n: "\<not> CHR '','' \<in> set trim_chars" by (simp add: trim_chars_def)
  show ?thesis
    using count_list_dropWhile [of "\<lambda>c. c \<in> set trim_chars" "CHR '',''", OF n]
    by (simp add: comma_count_eq trim_eq count_list_rev)
qed

lemma foldl_validate_lineNum: "fst (foldl validate_step (n, ws, vs) ls) = n + length ls"
proof (induction ls arbitrary: n ws vs)
  case (Cons l ls)
  then show ?case by (simp add: validate_step_def Let_def split: prod.splits)
qed simp

lemma validate_snoc:
  "validateVolunteerFile (Some (ls @ [l])) =
     (case validateVolunteerFile (Some ls) of (ws, vs) \<Rightarrow>
        (if trim l = [] then (ws, vs)
         else if comma_count l \<noteq> 2 then (ws @ [(length ls + 1, comma_count l, trim l)], vs)
         else (ws, vs @ [trim l])))"
proof -
  obtain n ws vs where f: "foldl validate_step (0, [], []) ls = (n, ws, vs)" by (cases "foldl validate_step (0, [], []) ls") auto
  have "n = length ls" using foldl_validate_lineNum [of 0 "[]" "[]" ls] f by simp
  then show ?thesis using f by (simp add: validateVolunteerFile_def validate_step_def Let_def comma_count_trim)
qed

lemma volunteer_line_commas:
  "comma_count (volunteer_line v) = comma_count (name v) + comma_count (contact v) + comma_count (skill v) + 2"
  by (simp add: comma_count_eq volunteer_line_def)

lemma volunteer_line_trim_ne: "trim (volunteer_line v) \<noteq> []"
proof
  assume "trim (volunteer_line v) = []"
  then have "comma_count (trim (volunteer_line v)) = 0" by (simp add: comma_count_def)
  then show False by (simp add: comma_count_trim volunteer_line_commas)
qed


lemma displayVolunteersFromFile_Some:
  assumes "int (length (List.map_filter parse_volunteer_line ls)) \<le> int32_max"
  shows "displayVolunteersFromFile (Some ls) =
    (let vs = List.map_filter parse_volunteer_line ls in
     if vs = [] then No_valid_records
     else Registered_table (zip (map (\<lambda>k. int k + 1) [0..<length vs]) vs) (int (length vs))
            (Some (map (\<lambda>k. (k, int (count_list (map skill vs) k))) (rev (remdups (rev (map skill vs)))))))"
proof -
  let ?vs = "List.map_filter parse_volunteer_line ls"
  let ?L = "foldl push_back empty_clist ?vs"
  have i: "ll_inv ?L" and c: "contents ?L = ?vs"
    using foldl_push_back [OF ll_inv_empty_clist, of ?vs] by (simp_all add: contents_empty_clist)
  have e: "list_empty ?L \<longleftrightarrow> ?vs = []" using ll_inv_head [OF i] c by (simp add: list_empty_def)
  show ?thesis
    using i c e skill_distribution_counts [OF assms]
    by (simp add: displayVolunteersFromFile_def Let_def ll_inv_iter_fold foldl_display_step add.commute)
qed

subsection \<open>Properties of the reports\<close>

text \<open>C22: \<^verbatim>\<open>validateVolunteerFile\<close>, which the registration handlers call after appending a
  record, accepts the new record exactly when none of its fields contains a comma, and
  otherwise warns about it with its line number and comma count (the record is saved all
  the same).\<close>

theorem validate_flags_commas:
  "validateVolunteerFile (Some (ls @ [volunteer_line v])) =
     (case validateVolunteerFile (Some ls) of (ws, vs) \<Rightarrow>
        if comma_count (name v) + comma_count (contact v) + comma_count (skill v) = 0
        then (ws, vs @ [trim (volunteer_line v)])
        else (ws @ [(length ls + 1, comma_count (volunteer_line v), trim (volunteer_line v))], vs))"
  using validate_snoc [of ls "volunteer_line v"] volunteer_line_trim_ne [of v]
  by (simp add: volunteer_line_commas split: prod.splits)

text \<open>C23: \<^verbatim>\<open>displayVolunteersFromFile\<close> lists the valid records of the registrant file in
  file order, numbered from 1, with their count and the skill distribution (each skill once,
  in order of first occurrence, with its number of volunteers); a file without valid
  records gives the "no valid records" message.\<close>

theorem displayVolunteersFromFile_correct:
  assumes "int (length (List.map_filter parse_volunteer_line ls)) \<le> int32_max"
  shows "displayVolunteersFromFile (Some ls) =
    (let vs = List.map_filter parse_volunteer_line ls in
     if vs = [] then No_valid_records
     else Registered_table (zip (map (\<lambda>k. int k + 1) [0..<length vs]) vs) (int (length vs))
            (Some (map (\<lambda>k. (k, int (count_list (map skill vs) k))) (rev (remdups (rev (map skill vs)))))))"
  using assms by (rule displayVolunteersFromFile_Some)

theorem displayVolunteersFromFile_correct_witness:
  "int (length (List.map_filter parse_volunteer_line [''Ana,555,medic'', ''bad line''])) \<le> int32_max
   \<and> displayVolunteersFromFile (Some [''Ana,555,medic'', ''bad line''])
       = Registered_table [(1, \<lparr>name = ''Ana'', contact = ''555'', skill = ''medic''\<rparr>)] 1 (Some [(''medic'', 1)])"
proof -
  have h: "int (length (List.map_filter parse_volunteer_line [''Ana,555,medic'', ''bad line''])) \<le> int32_max"
    by code_simp
  have p: "List.map_filter parse_volunteer_line [''Ana,555,medic'', ''bad line''] = [\<lparr>name = ''Ana'', contact = ''555'', skill = ''medic''\<rparr>]" by code_simp
  show ?thesis using h displayVolunteersFromFile_correct [OF h] p by simp
qed

end
