(* ===== verification/Render.thy ===== *)
theory Render
  imports Report Deploy
begin

text \<open>
  The text the reports print. \<^verbatim>\<open>std::left << std::setw(n) << s\<close> is \<open>setw n s\<close>: the
  string padded with spaces on the right to width \<open>n\<close>, never cut; \<^verbatim>\<open>s.substr(0, k)\<close> is
  \<open>take k s\<close>, \<^verbatim>\<open>std::string(n, c)\<close> is \<open>replicate n c\<close>, and an \<^verbatim>\<open>int\<close> or
  \<^verbatim>\<open>std::to_string\<close> is printed by \<open>show_int\<close>. A report is the list of lines it prints
  (the output is \<open>input_lines\<close> of it). The renderers take the values the models of
  theories \<open>Report\<close>, \<open>VolunteerQueue\<close> and \<open>Deploy\<close> compute:
  \<open>render_displayAll\<close> (\<^verbatim>\<open>VolunteerQueue::displayAll\<close>),
  \<open>render_viewRegisteredVolunteers\<close>, \<open>render_file_table\<close>
  (\<^verbatim>\<open>displayVolunteersFromFile\<close>), \<open>render_combined\<close>
  (\<^verbatim>\<open>displayCombinedVolunteerReport\<close>), \<open>site_status_table\<close> (the site table
  \<^verbatim>\<open>deployVolunteer\<close> prints in the loop that computes \<^verbatim>\<open>hasAvailableCapacity\<close>) and
  \<open>site_priority_table\<close> (the table \<^verbatim>\<open>findMostNeededSite\<close> prints in its loop;
  \<open>fms_print_step\<close> is the printing half of the loop body whose other half is
  \<open>fms_step\<close>). Two columns are printed from a \<^verbatim>\<open>double\<close> and are parameters rather
  than a model of IEEE arithmetic: \<open>fmt\<close>, the deployment rate written with
  \<^verbatim>\<open>std::fixed << std::setprecision(1)\<close>, and \<open>pct\<close>, the fill percentage
  \<^verbatim>\<open>std::to_string((int)(percentage * 100))\<close>.
\<close>

definition setw :: "nat \<Rightarrow> string \<Rightarrow> string" where
  "setw n s = s @ replicate (n - length s) CHR '' ''"

definition queue_row :: "int \<times> volunteer \<Rightarrow> string" where
  "queue_row r = (case r of (position, v) \<Rightarrow>
     setw 5 (show_int position) @ setw 20 (name v) @ setw 25 (contact v) @ setw 20 (skill v))"

definition render_displayAll :: "display_out \<Rightarrow> string list" where
  "render_displayAll d =
     (case d of
        Empty_queue_msg \<Rightarrow> [''No volunteers currently registered.'']
      | Queue_table rows queueSize \<Rightarrow>
          ['''', ''=== REGISTERED VOLUNTEERS (FIFO Order) ==='',
           setw 5 ''Pos'' @ setw 20 ''Name'' @ setw 25 ''Contact'' @ setw 20 ''Skill'',
           replicate 70 CHR ''-'']
          @ map queue_row rows
          @ [replicate 70 CHR ''-'', ''Total volunteers in queue: '' @ show_int queueSize])"

definition render_viewRegisteredVolunteers :: "display_out option \<Rightarrow> string list option" where
  "render_viewRegisteredVolunteers d =
     map_option (\<lambda>x. case x of
        Empty_queue_msg \<Rightarrow>
          [''No volunteers currently available for deployment.'',
           ''All volunteers from file have been deployed or no volunteers registered.'', '''',
           ''To add more volunteers:'', ''- Use Menu Option 1 to register new volunteers'',
           ''- Registered volunteers will be automatically available for deployment'']
      | Queue_table rows queueSize \<Rightarrow> render_displayAll x) d"

definition file_row :: "int \<times> volunteer \<Rightarrow> string" where
  "file_row r = (case r of (k, v) \<Rightarrow>
     setw 5 (show_int k) @ setw 25 (take 24 (name v)) @ setw 30 (take 29 (contact v))
     @ setw 20 (take 19 (skill v)))"

definition volunteer_table :: "(int \<times> volunteer) list \<Rightarrow> string list" where
  "volunteer_table rows =
     [setw 5 ''ID'' @ setw 25 ''Name'' @ setw 30 ''Contact'' @ setw 20 ''Skill/Specialization'',
      replicate 80 CHR ''='']
     @ map file_row rows @ [replicate 80 CHR ''='']"

definition skill_row :: "string \<times> int \<Rightarrow> string" where
  "skill_row p = (case p of (k, c) \<Rightarrow> setw 25 k @ setw 10 (show_int c))"

definition render_file_table :: "string \<Rightarrow> file_table \<Rightarrow> string list option" where
  "render_file_table filename t =
     (case t of
        No_file \<Rightarrow>
          Some [''=== ALL REGISTERED VOLUNTEERS (From File) ==='',
                ''No registered volunteers file found or unable to open '' @ [CHR 0x27] @ filename @ [CHR 0x27],
                ''This could mean no volunteers have been registered yet.'']
      | No_valid_records \<Rightarrow>
          Some [''=== ALL REGISTERED VOLUNTEERS (From File) ==='', ''No valid volunteer records found in the file.'']
      | Registered_table rows validCount skills \<Rightarrow>
          map_option (\<lambda>d.
            [''=== ALL REGISTERED VOLUNTEERS (From File) ==='', '''']
            @ volunteer_table rows
            @ [''Total registered volunteers: '' @ show_int validCount, '''', ''=== SKILL DISTRIBUTION ==='',
               setw 25 ''Skill'' @ setw 10 ''Count'', replicate 35 CHR ''-'']
            @ map skill_row d @ [replicate 35 CHR ''-'', '''']) skills)"

definition render_combined :: "(rat \<Rightarrow> string) \<Rightarrow> combined_report \<Rightarrow> string list option" where
  "render_combined fmt r =
     (case (queue_section r, render_file_table ''../data/volunteers.txt'' (history_section r),
            currentInQueue (system_summary r)) of
        (Some qs, Some hist, Some inQueue) \<Rightarrow>
          Some ([''=== COMPREHENSIVE VOLUNTEER REPORT ==='', '''',
                 ''1. CURRENT VOLUNTEER QUEUE (Active - Awaiting Deployment)'', replicate 60 CHR ''-'']
                @ (case qs of Empty_queue_msg \<Rightarrow> [''No volunteers currently in deployment queue.'']
                            | Queue_table _ _ \<Rightarrow> render_displayAll qs)
                @ ['''', ''2. DEPLOYED VOLUNTEERS (Currently in Field)'', replicate 60 CHR ''-'']
                @ (case deployed_section r of
                     None \<Rightarrow> [''No deployed volunteers file found.'']
                   | Some [] \<Rightarrow> [''No volunteers currently deployed.'']
                   | Some rows \<Rightarrow> volunteer_table rows)
                @ ['''', ''3. REGISTRATION HISTORY (All Previously Registered)'', replicate 60 CHR ''-'']
                @ hist
                @ ['''', ''4. SYSTEM SUMMARY'', replicate 60 CHR ''-'',
                   ''Total Volunteers Registered: '' @ show_int (totalRegistered (system_summary r)),
                   ''Currently in Queue: '' @ show_int inQueue,
                   ''Successfully Deployed: '' @ show_int (deployedCount (system_summary r))]
                @ (case deploymentRate (system_summary r) of
                     None \<Rightarrow> [] | Some rate \<Rightarrow> [''Deployment Rate: '' @ fmt rate @ ''%''])
                @ [replicate 60 CHR ''-'', ''''])
      | _ \<Rightarrow> None)"

definition site_status :: "relief_site \<Rightarrow> string" where
  "site_status s = (if 0 < wrap32 (maxCapacity s - currentCount s) then ''AVAILABLE'' else ''FULL'')"

definition site_status_row :: "relief_site \<Rightarrow> string" where
  "site_status_row s =
     setw 20 (site_name s) @ setw 15 (show_int (currentCount s) @ ''/'' @ show_int (maxCapacity s))
     @ setw 15 (show_int (wrap32 (maxCapacity s - currentCount s))) @ setw 10 (site_status s)"

definition site_status_table :: "relief_site clist \<Rightarrow> string list option" where
  "site_status_table sites =
     map_option (\<lambda>rows.
       ['''', ''=== CURRENT RELIEF SITE STATUS ==='',
        setw 20 ''Site Name'' @ setw 15 ''Current/Max'' @ setw 15 ''Available'' @ setw 10 ''Status'',
        replicate 60 CHR ''-''] @ rows @ [replicate 60 CHR ''-''])
       (iter_fold (\<lambda>rows s. rows @ [site_status_row s]) (nodes sites) (head sites) (length (nodes sites)) [])"

definition fms_print_step :: "(rat \<Rightarrow> string) \<Rightarrow> rat \<times> string list \<Rightarrow> relief_site \<Rightarrow> rat \<times> string list" where
  "fms_print_step pct st s =
     (case st of (lowestPercentage, rows) \<Rightarrow>
        if currentCount s < maxCapacity s then
          (let percentage = fill_ratio s;
               priority = (if percentage < lowestPercentage then ''HIGHEST'' else ''Lower'')
           in (if percentage < lowestPercentage then percentage else lowestPercentage,
               rows @ [setw 20 (site_name s) @ setw 15 (show_int (currentCount s) @ ''/'' @ show_int (maxCapacity s))
                       @ setw 12 (pct percentage @ ''%'') @ setw 10 priority]))
        else (lowestPercentage,
              rows @ [setw 20 (site_name s) @ setw 15 (show_int (currentCount s) @ ''/'' @ show_int (maxCapacity s))
                      @ setw 12 ''100%'' @ setw 10 ''FULL'']))"

definition site_priority_table :: "(rat \<Rightarrow> string) \<Rightarrow> relief_site clist \<Rightarrow> string list option" where
  "site_priority_table pct sites =
     map_option (\<lambda>(_, rows).
       ['''', ''=== SITE PRIORITY ANALYSIS ==='',
        setw 20 ''Site Name'' @ setw 15 ''Current/Max'' @ setw 12 ''% Filled'' @ setw 10 ''Priority'',
        replicate 57 CHR ''-''] @ rows @ [replicate 57 CHR ''-'', ''''])
       (iter_fold (fms_print_step pct) (nodes sites) (head sites) (length (nodes sites)) (11 / 10, []))"

subsection \<open>Widths\<close>

lemma setw_length [simp]: "length (setw n s) = max n (length s)"
  by (simp add: setw_def)

lemma setw_last: "length s < n \<Longrightarrow> setw n s ! (n - 1) = CHR '' ''"
  by (auto simp: setw_def nth_append)

lemma show_nat_length: "n < 10 ^ Suc k \<Longrightarrow> length (show_nat n) \<le> Suc k"
proof (induction n arbitrary: k rule: show_nat.induct)
  case (1 n)
  show ?case
  proof (cases "n < 10")
    case True
    then show ?thesis by (simp add: show_nat_small)
  next
    case False
    then obtain j where k: "k = Suc j"
      using "1.prems" by (cases k) auto
    have "n div 10 < 10 ^ Suc j" using "1.prems" k by (simp add: div_less_iff_less_mult)
    then have "length (show_nat (n div 10)) \<le> Suc j" using "1.IH" False by blast
    then show ?thesis using False k by (simp add: show_nat_big)
  qed
qed

lemma show_int_length: "0 \<le> i \<Longrightarrow> i < 10 ^ Suc k \<Longrightarrow> length (show_int i) \<le> Suc k"
proof -
  assume "0 \<le> i" "i < 10 ^ Suc k"
  then have "nat i < 10 ^ Suc k" by (simp add: nat_less_iff)
  then show ?thesis using \<open>0 \<le> i\<close> by (simp add: show_int_def show_nat_length)
qed

lemma file_row_split:
  assumes "0 \<le> k" "k < 10000"
  shows "length (setw 5 (show_int k)) = 5 \<and> length (setw 25 (take 24 (name v))) = 25
    \<and> length (setw 30 (take 29 (contact v))) = 30 \<and> length (setw 20 (take 19 (skill v))) = 20
    \<and> setw 5 (show_int k) ! 4 = CHR '' '' \<and> setw 25 (take 24 (name v)) ! 24 = CHR '' ''
    \<and> setw 30 (take 29 (contact v)) ! 29 = CHR '' '' \<and> setw 20 (take 19 (skill v)) ! 19 = CHR '' ''"
proof -
  have "length (show_int k) \<le> Suc 3" using show_int_length [of k 3] assms by simp
  then have "setw 5 (show_int k) ! (5 - 1) = CHR '' ''" by (intro setw_last) simp
  moreover have "setw 25 (take 24 (name v)) ! (25 - 1) = CHR '' ''" by (intro setw_last) simp
  moreover have "setw 30 (take 29 (contact v)) ! (30 - 1) = CHR '' ''" by (intro setw_last) simp
  moreover have "setw 20 (take 19 (skill v)) ! (20 - 1) = CHR '' ''" by (intro setw_last) simp
  ultimately show ?thesis using \<open>length (show_int k) \<le> Suc 3\<close> by simp
qed

lemma file_row_length: "0 \<le> k \<Longrightarrow> k < 10000 \<Longrightarrow> length (file_row (k, v)) = 80"
  using file_row_split [of k v] by (simp add: file_row_def)

lemma zip_ids_bound:
  "r \<in> set (zip (map (\<lambda>k. int k + 1) [0..<length vs]) vs) \<Longrightarrow> 0 \<le> fst r \<and> fst r \<le> int (length vs)"
  by (auto simp: set_zip)

subsection \<open>The report tables\<close>

text \<open>C25: Every row of the registrant tables of \<^verbatim>\<open>displayVolunteersFromFile\<close> and
  \<^verbatim>\<open>displayCombinedVolunteerReport\<close> (\<^verbatim>\<open>setw(5)\<close> id, \<^verbatim>\<open>setw(25)\<close>
  \<^verbatim>\<open>name.substr(0, 24)\<close>, \<^verbatim>\<open>setw(30)\<close> \<^verbatim>\<open>contact.substr(0, 29)\<close>,
  \<^verbatim>\<open>setw(20)\<close> \<^verbatim>\<open>skill.substr(0, 19)\<close>) with an id from 0 to 9999 is exactly 80
  characters, as wide as its header and its \<^verbatim>\<open>=\<close> rules, its columns start at 0, 5, 30 and
  60 and each ends in a space, so columns never run together, and the name column holds the
  first 24 characters of the name.\<close>

theorem file_row_columns:
  assumes "0 \<le> k" and "k < 10000"
  shows "length (file_row (k, v)) = 80
    \<and> file_row (k, v) ! 4 = CHR '' '' \<and> file_row (k, v) ! 29 = CHR '' ''
    \<and> file_row (k, v) ! 59 = CHR '' '' \<and> file_row (k, v) ! 79 = CHR '' ''
    \<and> take (length (take 24 (name v))) (drop 5 (file_row (k, v))) = take 24 (name v)"
proof -
  let ?a = "setw 5 (show_int k)" and ?b = "setw 25 (take 24 (name v))"
    and ?c = "setw 30 (take 29 (contact v))" and ?d = "setw 20 (take 19 (skill v))"
  have r: "file_row (k, v) = ?a @ ?b @ ?c @ ?d" by (simp add: file_row_def)
  note l = file_row_split [OF assms, of v]
  have "(?a @ ?b @ ?c @ ?d) ! 4 = CHR '' ''" using l by (simp add: nth_append)
  moreover have "(?a @ ?b @ ?c @ ?d) ! 29 = CHR '' ''"
    using l nth_append_length_plus [of ?a "?b @ ?c @ ?d" 24] by (simp add: nth_append)
  moreover have "(?a @ ?b @ ?c @ ?d) ! 59 = CHR '' ''"
    using l nth_append_length_plus [of "?a @ ?b" "?c @ ?d" 29] by (simp add: nth_append)
  moreover have "(?a @ ?b @ ?c @ ?d) ! 79 = CHR '' ''"
    using l nth_append_length_plus [of "?a @ ?b @ ?c" ?d 19] by simp
  moreover have "take (length (take 24 (name v))) (drop 5 (?a @ ?b @ ?c @ ?d)) = take 24 (name v)"
    using l by (simp add: setw_def min_def)
  ultimately show ?thesis using l r by simp
qed

theorem file_row_columns_witness:
  "length (file_row (1, \<lparr>name = ''Maria Fernanda Gonzalez-Ortega'', contact = ''555-0100'', skill = ''Medic''\<rparr>)) = 80
   \<and> file_row (1, \<lparr>name = ''Maria Fernanda Gonzalez-Ortega'', contact = ''555-0100'', skill = ''Medic''\<rparr>) ! 29 = CHR '' ''
   \<and> take 24 (drop 5 (file_row (1, \<lparr>name = ''Maria Fernanda Gonzalez-Ortega'', contact = ''555-0100'', skill = ''Medic''\<rparr>))) = ''Maria Fernanda Gonzalez-''"
proof -
  have t: "length (take 24 (name \<lparr>name = ''Maria Fernanda Gonzalez-Ortega'', contact = ''555-0100'', skill = ''Medic''\<rparr>)) = 24"
    by simp
  show ?thesis
    using file_row_columns [of 1 "\<lparr>name = ''Maria Fernanda Gonzalez-Ortega'', contact = ''555-0100'', skill = ''Medic''\<rparr>", unfolded t]
    by simp
qed

text \<open>C24: The registrant table \<^verbatim>\<open>displayVolunteersFromFile\<close> prints for a file with
  fewer than 10000 valid records is rectangular: its header, its two \<^verbatim>\<open>=\<close> rules and each
  of its rows, numbered from 1, are exactly 80 characters wide.\<close>

theorem volunteer_table_aligned:
  assumes "length (List.map_filter parse_volunteer_line ls) < 10000"
    and "displayVolunteersFromFile (Some ls) = Registered_table rows n d"
  shows "list_all (\<lambda>l. length l = 80) (volunteer_table rows)"
proof -
  let ?vs = "List.map_filter parse_volunteer_line ls"
  have "int (length ?vs) \<le> int32_max" using assms(1) by (simp add: int32_max_def)
  then have rows: "rows = zip (map (\<lambda>k. int k + 1) [0..<length ?vs]) ?vs"
    using assms(2) by (simp add: displayVolunteersFromFile_Some Let_def split: if_splits)
  have "\<forall>r\<in>set rows. length (file_row r) = 80"
  proof
    fix r assume "r \<in> set rows"
    then have "0 \<le> fst r" "fst r < 10000" using zip_ids_bound [of r ?vs] assms(1) rows by auto
    then show "length (file_row r) = 80" using file_row_length [of "fst r" "snd r"] by simp
  qed
  then show ?thesis by (simp add: volunteer_table_def list_all_iff)
qed

theorem volunteer_table_aligned_witness:
  "length (List.map_filter parse_volunteer_line [''Ann Lee, 555-1234, Medic'', ''bad'', ''Bob,1,Cook'']) < 10000
   \<and> displayVolunteersFromFile (Some [''Ann Lee, 555-1234, Medic'', ''bad'', ''Bob,1,Cook''])
       = Registered_table [(1, \<lparr>name = ''Ann Lee'', contact = ''555-1234'', skill = ''Medic''\<rparr>), (2, \<lparr>name = ''Bob'', contact = ''1'', skill = ''Cook''\<rparr>)] 2
           (Some [(''Medic'', 1), (''Cook'', 1)])
   \<and> list_all (\<lambda>l. length l = 80) (volunteer_table [(1, \<lparr>name = ''Ann Lee'', contact = ''555-1234'', skill = ''Medic''\<rparr>), (2, \<lparr>name = ''Bob'', contact = ''1'', skill = ''Cook''\<rparr>)])"
proof -
  have l: "length (List.map_filter parse_volunteer_line [''Ann Lee, 555-1234, Medic'', ''bad'', ''Bob,1,Cook'']) < 10000" by code_simp
  have d: "displayVolunteersFromFile (Some [''Ann Lee, 555-1234, Medic'', ''bad'', ''Bob,1,Cook''])
       = Registered_table [(1, \<lparr>name = ''Ann Lee'', contact = ''555-1234'', skill = ''Medic''\<rparr>), (2, \<lparr>name = ''Bob'', contact = ''1'', skill = ''Cook''\<rparr>)] 2
           (Some [(''Medic'', 1), (''Cook'', 1)])" by code_simp
  show ?thesis using l d volunteer_table_aligned [OF l d] by simp
qed

lemma drop_last_field: "length t = n \<Longrightarrow> drop (length (p @ t) - n) (p @ t) = t"
  by simp

lemma fms_print_marks:
  "case (foldl fms_step (0, 11 / 10, -1) xs, foldl (fms_print_step pct) (11 / 10, []) xs) of
     ((index, lowest, best), (lowest', rows)) \<Rightarrow>
       index = int (length xs) \<and> lowest' = lowest \<and> length rows = length xs \<and>
       (if best = -1 then list_all (\<lambda>r. drop (length r - 10) r \<noteq> ''HIGHEST   '') rows
        else 0 \<le> best \<and> nat best < length rows \<and> drop (length (rows ! nat best) - 10) (rows ! nat best) = ''HIGHEST   ''
          \<and> list_all (\<lambda>r. drop (length r - 10) r \<noteq> ''HIGHEST   '') (drop (Suc (nat best)) rows))"
proof (induction xs rule: rev_induct)
  case Nil
  then show ?case by simp
next
  case (snoc s xs)
  obtain index lowest best where st: "foldl fms_step (0, 11 / 10, -1) xs = (index, lowest, best)"
    by (cases "foldl fms_step (0, 11 / 10, -1) xs") auto
  obtain lowest' rows where pr: "foldl (fms_print_step pct) (11 / 10, []) xs = (lowest', rows)"
    by (cases "foldl (fms_print_step pct) (11 / 10, []) xs") auto
  note ih = snoc.IH [unfolded st pr prod.case]
  have fields: "length (setw 10 ''HIGHEST'') = 10" "length (setw 10 ''Lower'') = 10" "length (setw 10 ''FULL'') = 10"
    "setw 10 ''HIGHEST'' = ''HIGHEST   ''" "setw 10 ''Lower'' \<noteq> ''HIGHEST   ''" "setw 10 ''FULL'' \<noteq> ''HIGHEST   ''"
    by (simp_all add: setw_def eval_nat_numeral)
  have s1: "foldl fms_step (0, 11 / 10, -1) (xs @ [s]) = fms_step (index, lowest, best) s" by (simp add: st)
  have s2: "foldl (fms_print_step pct) (11 / 10, []) (xs @ [s]) = fms_print_step pct (lowest', rows) s"
    by (simp add: pr)
  show ?case
    unfolding s1 s2 using ih fields
    by (cases "currentCount s < maxCapacity s"; cases "fill_ratio s < lowest")
       (auto simp: fms_step_def fms_print_step_def Let_def nth_append drop_last_field
          simp del: setw_length split: if_splits)
qed

subsection \<open>The priority table of the matcher\<close>

text \<open>C20: The priority table \<^verbatim>\<open>findMostNeededSite\<close> prints has one row per site, and the
  site it returns is the last row marked \<^verbatim>\<open>HIGHEST\<close> (a row is marked when its site beats
  the best ratio seen so far); it returns \<open>-1\<close> exactly when no row is marked. This holds
  whatever the percentage column prints.\<close>

theorem priority_table_marks_selection:
  assumes "ll_inv sites"
  shows "\<exists>b rows. findMostNeededSite sites = Some b
    \<and> site_priority_table pct sites = Some (['''', ''=== SITE PRIORITY ANALYSIS ==='',
        setw 20 ''Site Name'' @ setw 15 ''Current/Max'' @ setw 12 ''% Filled'' @ setw 10 ''Priority'',
        replicate 57 CHR ''-''] @ rows @ [replicate 57 CHR ''-'', ''''])
    \<and> length rows = length (contents sites)
    \<and> (if b = -1 then list_all (\<lambda>r. drop (length r - 10) r \<noteq> ''HIGHEST   '') rows
       else 0 \<le> b \<and> nat b < length rows \<and> drop (length (rows ! nat b) - 10) (rows ! nat b) = ''HIGHEST   ''
         \<and> list_all (\<lambda>r. drop (length r - 10) r \<noteq> ''HIGHEST   '') (drop (Suc (nat b)) rows))"
proof -
  obtain index lowest b where st: "foldl fms_step (0, 11 / 10, -1) (contents sites) = (index, lowest, b)"
    by (cases "foldl fms_step (0, 11 / 10, -1) (contents sites)") auto
  obtain lowest' rows where pr: "foldl (fms_print_step pct) (11 / 10, []) (contents sites) = (lowest', rows)"
    by (cases "foldl (fms_print_step pct) (11 / 10, []) (contents sites)") auto
  note m = fms_print_marks [of "contents sites" pct, unfolded st pr prod.case]
  have "findMostNeededSite sites = Some b"
    using assms st by (simp add: findMostNeededSite_def ll_inv_iter_fold)
  moreover have "site_priority_table pct sites = Some (['''', ''=== SITE PRIORITY ANALYSIS ==='',
        setw 20 ''Site Name'' @ setw 15 ''Current/Max'' @ setw 12 ''% Filled'' @ setw 10 ''Priority'',
        replicate 57 CHR ''-''] @ rows @ [replicate 57 CHR ''-'', ''''])"
    using assms pr by (simp add: site_priority_table_def ll_inv_iter_fold del: setw_length)
  ultimately show ?thesis using m by blast
qed

theorem priority_table_marks_selection_witness:
  "findMostNeededSite (foldl push_back empty_clist [\<lparr>site_name = ''A'', currentCount = 2, maxCapacity = 10\<rparr>, \<lparr>site_name = ''B'', currentCount = 1, maxCapacity = 5\<rparr>, \<lparr>site_name = ''C'', currentCount = 0, maxCapacity = 4\<rparr>, \<lparr>site_name = ''D'', currentCount = 5, maxCapacity = 5\<rparr>]) = Some 2
   \<and> site_priority_table (\<lambda>r. show_int \<lfloor>r * 100\<rfloor>) (foldl push_back empty_clist [\<lparr>site_name = ''A'', currentCount = 2, maxCapacity = 10\<rparr>, \<lparr>site_name = ''B'', currentCount = 1, maxCapacity = 5\<rparr>, \<lparr>site_name = ''C'', currentCount = 0, maxCapacity = 4\<rparr>, \<lparr>site_name = ''D'', currentCount = 5, maxCapacity = 5\<rparr>])
     = Some ['''', ''=== SITE PRIORITY ANALYSIS ==='',
             ''Site Name           Current/Max    % Filled    Priority  '', replicate 57 CHR ''-'',
             ''A                   2/10           20%         HIGHEST   '',
             ''B                   1/5            20%         Lower     '',
             ''C                   0/4            0%          HIGHEST   '',
             ''D                   5/5            100%        FULL      '', replicate 57 CHR ''-'', '''']"
proof -
  have h: "ll_inv (foldl push_back empty_clist [\<lparr>site_name = ''A'', currentCount = 2, maxCapacity = 10\<rparr>, \<lparr>site_name = ''B'', currentCount = 1, maxCapacity = 5\<rparr>, \<lparr>site_name = ''C'', currentCount = 0, maxCapacity = 4\<rparr>, \<lparr>site_name = ''D'', currentCount = 5, maxCapacity = 5\<rparr>])"
    by code_simp
  have t: "site_priority_table (\<lambda>r. show_int \<lfloor>r * 100\<rfloor>) (foldl push_back empty_clist [\<lparr>site_name = ''A'', currentCount = 2, maxCapacity = 10\<rparr>, \<lparr>site_name = ''B'', currentCount = 1, maxCapacity = 5\<rparr>, \<lparr>site_name = ''C'', currentCount = 0, maxCapacity = 4\<rparr>, \<lparr>site_name = ''D'', currentCount = 5, maxCapacity = 5\<rparr>])
     = Some ['''', ''=== SITE PRIORITY ANALYSIS ==='',
             ''Site Name           Current/Max    % Filled    Priority  '', replicate 57 CHR ''-'',
             ''A                   2/10           20%         HIGHEST   '',
             ''B                   1/5            20%         Lower     '',
             ''C                   0/4            0%          HIGHEST   '',
             ''D                   5/5            100%        FULL      '', replicate 57 CHR ''-'', '''']"
    by code_simp
  obtain b rows where
    f: "findMostNeededSite (foldl push_back empty_clist [\<lparr>site_name = ''A'', currentCount = 2, maxCapacity = 10\<rparr>, \<lparr>site_name = ''B'', currentCount = 1, maxCapacity = 5\<rparr>, \<lparr>site_name = ''C'', currentCount = 0, maxCapacity = 4\<rparr>, \<lparr>site_name = ''D'', currentCount = 5, maxCapacity = 5\<rparr>]) = Some b"
    and p: "site_priority_table (\<lambda>r. show_int \<lfloor>r * 100\<rfloor>) (foldl push_back empty_clist [\<lparr>site_name = ''A'', currentCount = 2, maxCapacity = 10\<rparr>, \<lparr>site_name = ''B'', currentCount = 1, maxCapacity = 5\<rparr>, \<lparr>site_name = ''C'', currentCount = 0, maxCapacity = 4\<rparr>, \<lparr>site_name = ''D'', currentCount = 5, maxCapacity = 5\<rparr>])
       = Some (['''', ''=== SITE PRIORITY ANALYSIS ==='',
        setw 20 ''Site Name'' @ setw 15 ''Current/Max'' @ setw 12 ''% Filled'' @ setw 10 ''Priority'',
        replicate 57 CHR ''-''] @ rows @ [replicate 57 CHR ''-'', ''''])"
    and sel: "if b = -1 then list_all (\<lambda>r. drop (length r - 10) r \<noteq> ''HIGHEST   '') rows
       else 0 \<le> b \<and> nat b < length rows \<and> drop (length (rows ! nat b) - 10) (rows ! nat b) = ''HIGHEST   ''
         \<and> list_all (\<lambda>r. drop (length r - 10) r \<noteq> ''HIGHEST   '') (drop (Suc (nat b)) rows)"
    using priority_table_marks_selection [OF h, of "\<lambda>r. show_int \<lfloor>r * 100\<rfloor>"] by blast
  have rows: "rows = [''A                   2/10           20%         HIGHEST   '',
             ''B                   1/5            20%         Lower     '',
             ''C                   0/4            0%          HIGHEST   '',
             ''D                   5/5            100%        FULL      '']"
    using p t by (simp add: setw_def eval_nat_numeral)
  have "b = 2"
  proof (cases "b = -1")
    case True
    then show ?thesis using sel rows by simp
  next
    case False
    then have "0 \<le> b" "nat b < 4" "drop (length (rows ! nat b) - 10) (rows ! nat b) = ''HIGHEST   ''"
      "list_all (\<lambda>r. drop (length r - 10) r \<noteq> ''HIGHEST   '') (drop (Suc (nat b)) rows)"
      using sel rows by simp_all
    then show ?thesis using rows
      by (cases "nat b") (auto simp: less_Suc_eq nat_eq_iff eval_nat_numeral)
  qed
  then show ?thesis using f t by simp
qed

end
