(* ===== verification/Spec2Isabelle.thy ===== *)
theory Spec2Isabelle
  imports Session Files Render
begin

text \<open>
  \<^bold>\<open>Verification development of the volunteer allocation engine.\<close>

  The program (\<^verbatim>\<open>src/\<close>) is an interactive C++ shell that keeps a FIFO queue of
  registered volunteers, assigns them one at a time to the relief site that most needs
  them, and persists three line-oriented text files: the registrants
  (\<^verbatim>\<open>volunteers.txt\<close>, \<open>name,contact,skill\<close>), the deployment ledger
  (\<^verbatim>\<open>deployed_volunteers.txt\<close>, same shape) and the site table (\<^verbatim>\<open>relief_sites.txt\<close>,
  \<open>name current max\<close>). Its parts and the theories that model them, leaf first:

  \<^item> \<open>Prelude\<close>: the exceptions of the core (\<open>exn\<close>), 32-bit \<open>int\<close> arithmetic
    (\<open>is_int32\<close>, \<open>wrap32\<close>, the two's-complement wrap chosen for signed overflow, which C++
    leaves undefined, shown equal to \<open>sint\<close> of a \<open>32 word\<close>), and list lemmas shared by all.
  \<^item> \<open>Chain\<close>: the heap. Raw \<open>new\<close>/\<open>delete\<close>d nodes (\<^verbatim>\<open>ListNode\<close>, \<^verbatim>\<open>Node\<close>) are slots of
    an arena (\<open>'a node option list\<close>); an address is a slot index, \<open>None\<close> a deleted
    node, and slots are never reused, so a dangling pointer dereferences to \<open>None\<close>.
    \<open>walk\<close>/\<open>chain\<close> follow \<^verbatim>\<open>next\<close> pointers with fuel \<open>length ar\<close> (enough: a chain
    without repetition has at most one node per slot, \<open>path_length\<close>); \<open>iter_fold\<close> is
    the \<^verbatim>\<open>begin()\<close>/\<^verbatim>\<open>end()\<close>/\<^verbatim>\<open>++\<close> loop and \<open>find_addr\<close> the same loop with an early
    \<^verbatim>\<open>return\<close>; on a chain they are \<open>foldl\<close> and \<open>find\<close>. \<open>owns\<close> is the ownership
    invariant: the chain ends in null, the tail points to its last node, and the live
    slots are exactly the chain (no leak).
  \<^item> \<open>LinkedList\<close>: \<^verbatim>\<open>CustomLinkedList<T>\<close> (\<^verbatim>\<open>include/CustomLists.hpp\<close>), every method,
    with invariant \<open>ll_inv\<close> and abstraction \<open>contents\<close>; each method refines the list
    operation (append, prepend, deep copy, replace, checked index, in-place update), and
    \<open>clear\<close> frees every node.
  \<^item> \<open>VolunteerQueue\<close>: \<^verbatim>\<open>VolunteerQueue\<close> (\<^verbatim>\<open>include/VolunteerQueue.hpp\<close>,
    \<^verbatim>\<open>src/VolunteerQueue.cpp\<close>) with invariant \<open>vq_inv\<close> and abstraction \<open>queue_list\<close>:
    FIFO, the \<^verbatim>\<open>runtime_error\<close> on an empty \<^verbatim>\<open>dequeue\<close>, the O(n) \<^verbatim>\<open>size()\<close>, the
    destructor's loop freeing every node, and \<^verbatim>\<open>displayAll\<close> (its printed rows) traversing
    head to tail.
  \<^item> \<open>SiteAlgorithm\<close>: \<^verbatim>\<open>findMostNeededSite\<close> (\<^verbatim>\<open>include/SiteAlgorithm.hpp\<close>) as a fold of
    its loop body \<open>fms_step\<close>, proved against the contract \<open>most_needed\<close> (first
    qualifying site of least fill ratio, ties to the earliest, \<open>-1\<close> if none) by a loop
    invariant \<open>fms_inv\<close>. Ratios are exact rationals where the code uses \<^verbatim>\<open>double\<close>.
  \<^item> \<open>SkillCounter\<close>: the frequency counter \<^verbatim>\<open>SkillCounter\<close> and its client in
    \<^verbatim>\<open>displayVolunteersFromFile\<close>, refined to occurrence counts in first-seen order.
  \<^item> \<open>Storage\<close>: the file functions of \<^verbatim>\<open>src/main.cpp\<close> (\<^verbatim>\<open>trim\<close>, the volunteer and
    ledger parsers, \<^verbatim>\<open>isVolunteerDeployed\<close>, \<^verbatim>\<open>loadVolunteersFromFile\<close>, the two
    appenders, \<^verbatim>\<open>loadReliefSites\<close> with \<^verbatim>\<open>std::stoi\<close>, \<^verbatim>\<open>saveReliefSites\<close>). A file
    is its list of lines, \<open>None\<close> when it cannot be opened. Round trips of both record
    shapes, the deduplication of the load, and the malformed inputs they accept.
  \<^item> \<open>Report\<close>: the reports and checks of \<^verbatim>\<open>src/main.cpp\<close> with their output modelled
    as the data they print: \<^verbatim>\<open>viewRegisteredVolunteers\<close>, \<^verbatim>\<open>displayVolunteersFromFile\<close>
    (registrant table and skill distribution), \<^verbatim>\<open>displayCombinedVolunteerReport\<close> (its four
    sections and summary numbers), \<^verbatim>\<open>validateVolunteerFile\<close> (warnings and accepted
    lines) and \<^verbatim>\<open>saveAllVolunteersToFile\<close> (which truncates the file).
  \<^item> \<open>Files\<close>: the data files as bytes. \<open>file_lines\<close> is the \<^verbatim>\<open>std::getline\<close> loop
    every reader runs (a last line without a line break is still a line);
    \<open>saveVolunteerToFile_disk\<close> and \<open>saveDeployedVolunteer_disk\<close> are the two appenders'
    stream writes with their \<^verbatim>\<open>needsNewline\<close> check on the last byte
    (\<open>needs_newline\<close>; an empty file fails the \<^verbatim>\<open>seekg\<close> and needs none), and
    \<open>saveReliefSites_disk\<close> the truncating site write. Refinement theorems show that the
    line model of theory \<open>Storage\<close> is what these writes give when read back, and the site
    table round-trips byte for byte.
  \<^item> \<open>Render\<close>: the text of the reports. \<^verbatim>\<open>std::left << std::setw(n)\<close> is \<open>setw\<close>
    (pads, never cuts), \<^verbatim>\<open>substr(0, k)\<close> is \<open>take k\<close>; \<open>render_displayAll\<close>,
    \<open>render_viewRegisteredVolunteers\<close>, \<open>render_file_table\<close> and \<open>render_combined\<close>
    print the values the models of \<open>VolunteerQueue\<close> and \<open>Report\<close> compute, as lines.
    \<open>site_status_table\<close> and \<open>site_priority_table\<close> are the site tables
    \<^verbatim>\<open>deployVolunteer\<close> and \<^verbatim>\<open>findMostNeededSite\<close> print in their loops. The file
    tables are 80 columns wide with separated columns; \<^verbatim>\<open>displayAll\<close>'s rows overflow
    their columns on long names (they pad with \<^verbatim>\<open>setw\<close> but never cut with
    \<^verbatim>\<open>substr\<close>); the matcher's last \<^verbatim>\<open>HIGHEST\<close> row is the site it returns.
  \<^item> \<open>Deploy\<close>: \<^verbatim>\<open>deployVolunteer\<close> on the world (queue and three files): every guard
    and early return, the dequeue, \<^verbatim>\<open>sites[bestSiteIndex].currentCount++\<close> through
    \<^verbatim>\<open>operator[]\<close>, the ledger append and the table rewrite, in the code's order.
    Exceptions that escape (\<^verbatim>\<open>out_of_range\<close> is not a \<^verbatim>\<open>runtime_error\<close>) and null
    dereferences are \<open>Inl\<close>.
  \<^item> \<open>Console\<close>: \<^verbatim>\<open>std::cin\<close> as the characters not yet read and its \<^verbatim>\<open>good()\<close>
    state, with the three operations the shell performs: \<^verbatim>\<open>operator>>\<close> into an \<^verbatim>\<open>int\<close>
    (\<open>cin_int\<close>: optional sign, decimal digits, 0 and failure when there is no digit,
    \<^verbatim>\<open>INT_MAX\<close>/\<^verbatim>\<open>INT_MIN\<close> and failure out of range, target untouched when the stream has
    already failed), \<^verbatim>\<open>std::getline\<close> (\<open>cin_getline\<close>) and \<^verbatim>\<open>ignore\<close> (\<open>cin_ignore\<close>,
    also \<^verbatim>\<open>pauseForUser\<close>). The behaviour is libstdc++'s, C++11 and later.
  \<^item> \<open>Menu\<close>: \<^verbatim>\<open>main\<close> itself: start-up (\<open>main_init\<close>), the registration submenu and
    handlers reading the console (\<open>registerVolunteer\<close>, \<open>registerSingleVolunteer\<close>,
    \<open>registerMultipleVolunteers\<close> with its \<^verbatim>\<open>for\<close> loop \<open>register_for\<close>), the
    \<^verbatim>\<open>switch\<close> (\<open>menu_step\<close>), the loop (\<open>main_loop\<close>) and \<open>main\<close>; the inductive set
    \<open>reachable\<close> with its invariant \<open>queue_ok\<close> (well-formed queue, every queued volunteer
    with non-empty trimmed fields) proved by rule induction, and the loop's partial
    correctness by fixpoint induction.
  \<^item> \<open>Session\<close>: what an operator types. A menu command as meant (\<open>session_cmd\<close>:
    register one, register several, deploy, view), the console lines it is typed as
    (\<open>cmd_lines\<close>) and its effect on the world (\<open>cmd_step\<close>); \<open>session_refines\<close> proves
    that \<^verbatim>\<open>main\<close> on the typed session computes exactly the command-level result.
  \<^item> This theory: the property that spans the queue, the orchestrator and the ledger format,
    conservation of volunteers across a deployment (\<open>deploy_moves_volunteer\<close>), and
    liveness: with enough free places, the console session that chooses Deploy once per
    waiting volunteer and then Exit returns with the queue empty (\<open>deploy_until_empty\<close>).

  What the theorems show (the claims of the manifest): deployment succeeds exactly as the
  specification's \<open>deployNext\<close> describes and keeps the capacity invariant; its error
  outcomes change nothing; no exception escapes \<^verbatim>\<open>main\<close> and no null pointer is
  dereferenced, whatever the files and the console input;
  typing a session of well-formed commands makes \<^verbatim>\<open>main\<close> compute the command-level
  result; the matcher meets its contract on counts \<open>\<ge> 0\<close> and capacities \<open>\<le> 2^26\<close>,
  where its \<^verbatim>\<open>double\<close> comparisons agree with exact ones; the queue is FIFO and reports
  emptiness; the loader deduplicates against the ledger; the site table round-trips byte for
  byte; the capacity pre-check is equivalent to the matcher's test on non-negative counts;
  the reports print what they read, the registrant tables are aligned 80-column text and the
  matcher's printed priority marks show the site it selects; the byte-level appenders
  refine the line model of the files.
  They also show where the code departs from the specification, each for all inputs of
  the kind: a comma in the name or contact corrupts the record and one in the skill does
  not; the site loader accepts trailing junk after a count and negative capacities;
  a volunteer registered twice is deployed twice, from every reachable world with room;
  and the shell never checks its input stream: a menu entry that is not a number, or the
  end of the input before Exit, makes \<^verbatim>\<open>main\<close> loop forever, blank input makes it read
  the uninitialised \<^verbatim>\<open>choice\<close>, and asking to register \<^verbatim>\<open>INT_MAX\<close> volunteers
  makes the registration loop's counter overflow so that it never ends.

  Fuel: arena walks use \<open>length\<close> of the arena, proved sufficient on every well-formed
  structure (\<open>Chain.walk_fuel_exact\<close>), so each theorem about a loop states that it
  returns. The two loops whose termination depends on the input, \<^verbatim>\<open>main\<close>'s and the
  registration \<^verbatim>\<open>for\<close> loop, are \<open>partial_function (option)\<close> without fuel: \<open>None\<close>
  is non-termination, proved as such where it happens, and the theorems that they return
  compute \<open>Some\<close>.

  Integers: values the program stores in \<^verbatim>\<open>int\<close> fields and reads from files are 32-bit
  (\<open>is_int32\<close>; \<^verbatim>\<open>std::stoi\<close> and \<^verbatim>\<open>operator>>\<close> enforce it). Signed overflow is
  undefined behaviour in C++; at its three sites the model takes the two's-complement wrap
  \<open>wrap32\<close> that unoptimised code performs on the usual targets (an optimiser may
  assume the overflow away, so results that depend on it are not guaranteed): the pre-check
  \<^verbatim>\<open>maxCapacity - currentCount\<close> (\<^verbatim>\<open>main.cpp:336\<close>), \<^verbatim>\<open>currentCount++\<close> (403, never
  reached from a full site) and the registration counter \<^verbatim>\<open>i++\<close> (202); the skill counts
  of \<^verbatim>\<open>SkillCounter\<close> also wrap, and their theorems assume fewer than \<open>2^31\<close> volunteers.
  Theorems that depend on the wrap say so (the \<^verbatim>\<open>INT_MAX\<close> branch of the registration
  loop). Element counts, \<^verbatim>\<open>size()\<close>, display positions and the matcher's index are
  unbounded \<open>int\<close> here: they would need more than \<open>2^31\<close> list nodes to differ.

  Not modelled: the printing of the deployment rate, a \<^verbatim>\<open>double\<close> written with
  \<^verbatim>\<open>std::fixed << std::setprecision(1)\<close> (\<open>render_combined\<close> takes it as a parameter
  rather than model IEEE division and decimal rounding) and the fill percentage the
  matcher prints (likewise a parameter), the messages \<^verbatim>\<open>deployVolunteer\<close> prints, \<^verbatim>\<open>displayMenu\<close> (it only prints), \<^verbatim>\<open>include/Prototypes.hpp\<close>
  (declarations only), the include guards and \<^verbatim>\<open>#include\<close> lines, locales other than
  \<open>"C"\<close> (thousands grouping in \<^verbatim>\<open>operator>>\<close>), failures to open a file for writing
  and other stream write failures (they only print a warning; writes are assumed to
  succeed), and crashes between the two writes of a deployment (the specification
  disclaims transactionality).
\<close>


subsection \<open>Properties across components\<close>

lemma ledger_vols_append:
  "parse_ledger_line (volunteer_line v) = Some v \<Longrightarrow>
     List.map_filter parse_ledger_line ((case f of None \<Rightarrow> [] | Some ls \<Rightarrow> ls) @ [volunteer_line v])
       = (case f of None \<Rightarrow> [] | Some ls \<Rightarrow> List.map_filter parse_ledger_line ls) @ [v]"
  by (cases f) (simp_all add: map_filter_append map_filter_simps)

text \<open>C32: Conservation of volunteers: in every reachable world, a successful deployment
  removes exactly the volunteer at the front of the queue and the ledger, as the next load
  reads it, gains exactly that volunteer; so the multiset of queued and deployed volunteers
  is unchanged. This holds when the deployed volunteer has no comma in name or contact and
  no line break in the skill; otherwise the record is corrupted (\<open>Storage.comma_roundtrip_iff\<close>).\<close>

theorem deploy_moves_volunteer:
  assumes "reachable w" "deployVolunteer w = Inr (Deployed v i, w')"
    and "CHR '','' \<notin> set (name v)" "CHR '','' \<notin> set (contact v)" "CHR 0x0A \<notin> set (skill v)"
  shows "queue_list (queue w) = v # queue_list (queue w') \<and> ledger_vols w' = ledger_vols w @ [v]
    \<and> mset (queue_list (queue w')) + mset (ledger_vols w') = mset (queue_list (queue w)) + mset (ledger_vols w)"
proof -
  have ok: "queue_ok w" using reachable_ok [OF assms(1)] .
  from deploy_cases [OF assms(2)] have d: "dequeue (queue w) = Inr (v, queue w')"
    and l: "ledger_file w' = saveDeployedVolunteer v (ledger_file w)" by auto
  from ok d have q: "queue_list (queue w) = v # queue_list (queue w')"
    using dequeue_Inr by (auto simp: queue_ok_def)
  with ok have "fields_ok v" by (simp add: queue_ok_def)
  then have "parse_ledger_line (volunteer_line v) = Some v"
    using parse_volunteer_line_print assms(3-5) by (simp add: fields_ok_def)
  then have "ledger_vols w' = ledger_vols w @ [v]"
    using l ledger_vols_append [of v "ledger_file w"] by (simp add: ledger_vols_def saveDeployedVolunteer_def)
  with q show ?thesis by simp
qed

theorem deploy_moves_volunteer_witness:
  "\<exists>w'. reachable (main_init (Some [''Ana,555,medic'']) (Some []) (Some [''A 0 10''])) \<and> deployVolunteer (main_init (Some [''Ana,555,medic'']) (Some []) (Some [''A 0 10''])) = Inr (Deployed \<lparr>name = ''Ana'', contact = ''555'', skill = ''medic''\<rparr> 0, w')
     \<and> CHR '','' \<notin> set (name \<lparr>name = ''Ana'', contact = ''555'', skill = ''medic''\<rparr>) \<and> CHR '','' \<notin> set (contact \<lparr>name = ''Ana'', contact = ''555'', skill = ''medic''\<rparr>) \<and> CHR 0x0A \<notin> set (skill \<lparr>name = ''Ana'', contact = ''555'', skill = ''medic''\<rparr>)
     \<and> queue_list (queue (main_init (Some [''Ana,555,medic'']) (Some []) (Some [''A 0 10'']))) = \<lparr>name = ''Ana'', contact = ''555'', skill = ''medic''\<rparr> # queue_list (queue w') \<and> ledger_vols w' = ledger_vols (main_init (Some [''Ana,555,medic'']) (Some []) (Some [''A 0 10''])) @ [\<lparr>name = ''Ana'', contact = ''555'', skill = ''medic''\<rparr>]
     \<and> mset (queue_list (queue w')) + mset (ledger_vols w') = mset (queue_list (queue (main_init (Some [''Ana,555,medic'']) (Some []) (Some [''A 0 10''])))) + mset (ledger_vols (main_init (Some [''Ana,555,medic'']) (Some []) (Some [''A 0 10''])))"
proof -
  have "case deployVolunteer (main_init (Some [''Ana,555,medic'']) (Some []) (Some [''A 0 10''])) of Inr (Deployed v i, w') \<Rightarrow> v = \<lparr>name = ''Ana'', contact = ''555'', skill = ''medic''\<rparr> \<and> i = 0 | _ \<Rightarrow> False"
    by code_simp
  then obtain w' where d: "deployVolunteer (main_init (Some [''Ana,555,medic'']) (Some []) (Some [''A 0 10''])) = Inr (Deployed \<lparr>name = ''Ana'', contact = ''555'', skill = ''medic''\<rparr> 0, w')"
    by (auto split: sum.splits prod.splits deploy_outcome.splits)
  have c: "CHR '','' \<notin> set (name \<lparr>name = ''Ana'', contact = ''555'', skill = ''medic''\<rparr>)" "CHR '','' \<notin> set (contact \<lparr>name = ''Ana'', contact = ''555'', skill = ''medic''\<rparr>)" "CHR 0x0A \<notin> set (skill \<lparr>name = ''Ana'', contact = ''555'', skill = ''medic''\<rparr>)" by simp_all
  show ?thesis using reachable.start d c deploy_moves_volunteer [OF reachable.start d c] by blast
qed

lemma deploy_room_step:
  assumes q: "vq_inv (queue w)" "queue_list (queue w) = v # vs"
    and s: "\<forall>s\<in>set (site_list w). 0 \<le> currentCount s \<and> currentCount s \<le> maxCapacity s"
    and r: "0 < sum_list (map (\<lambda>s. maxCapacity s - currentCount s) (site_list w))"
  shows "\<exists>out w1. deployVolunteer w = Inr (out, w1) \<and> vq_inv (queue w1) \<and> queue_list (queue w1) = vs
    \<and> (\<forall>s\<in>set (site_list w1). 0 \<le> currentCount s \<and> currentCount s \<le> maxCapacity s)
    \<and> sum_list (map (\<lambda>s. maxCapacity s - currentCount s) (site_list w1))
        = sum_list (map (\<lambda>s. maxCapacity s - currentCount s) (site_list w)) - 1
    \<and> sum_list (map currentCount (site_list w1)) = sum_list (map currentCount (site_list w)) + 1
    \<and> ledger_file w1 = saveDeployedVolunteer v (ledger_file w)"
proof -
  let ?xs = "site_list w"
  from sum_list_pos [of ?xs "\<lambda>s. maxCapacity s - currentCount s"] s r
  have "\<exists>s\<in>set ?xs. qualifies s" by (auto simp: qualifies_def)
  moreover have nn: "\<forall>s\<in>set ?xs. 0 \<le> currentCount s" using s by blast
  ultimately obtain i w1 where d: "deployVolunteer w = Inr (Deployed v i, w1)"
    and m: "most_needed ?xs i" and i: "0 \<le> i" "nat i < length ?xs"
    and q1: "vq_inv (queue w1)" "queue_list (queue w1) = vs"
    and sl: "site_list w1 = ?xs[nat i := (?xs ! nat i)\<lparr>currentCount := currentCount (?xs ! nat i) + 1\<rparr>]"
    and lf: "ledger_file w1 = saveDeployedVolunteer v (ledger_file w)"
    using deploy_step [OF q nn] by blast
  have qi: "qualifies (?xs ! nat i)" using m i by (auto simp: most_needed_def)
  have "\<forall>s\<in>set (site_list w1). 0 \<le> currentCount s \<and> currentCount s \<le> maxCapacity s"
    using sl s qi nth_mem [OF i(2)] set_update_subset_insert [of ?xs "nat i"] by (fastforce simp: qualifies_def)
  then show ?thesis using d q1 sl lf i(2) by (simp add: sum_list_map_update)
qed

text \<open>C13: Liveness of deployment, typed at the console: from a well-formed queue and a
  site table with \<open>0 \<le> currentCount \<le> maxCapacity\<close> and at least as many free places as
  waiting volunteers, the session that chooses Deploy once per waiting volunteer and then
  Exit returns normally, with the queue empty and the total of the site counts raised by
  the number of volunteers deployed.\<close>

theorem deploy_until_empty:
  assumes "vq_inv (queue w)"
    and "\<forall>s\<in>set (site_list w). 0 \<le> currentCount s \<and> currentCount s \<le> maxCapacity s"
    and "int (length (queue_list (queue w))) \<le> sum_list (map (\<lambda>s. maxCapacity s - currentCount s) (site_list w))"
  shows "\<exists>w'. main_loop x w (cin_of (session (replicate (length (queue_list (queue w))) Deploy_next))) = Some (Inr w')
           \<and> vq_inv (queue w') \<and> queue_list (queue w') = []
           \<and> sum_list (map currentCount (site_list w'))
               = sum_list (map currentCount (site_list w)) + int (length (queue_list (queue w)))"
  using assms
proof (induction "queue_list (queue w)" arbitrary: w x)
  case Nil
  then show ?case using main_loop_quit [of x w "[]"] by (simp add: Nil.hyps [symmetric] session_def)
next
  case (Cons v vs)
  have len: "length (queue_list (queue w)) = Suc (length vs)" using Cons.hyps(2) by (metis length_Cons)
  from Cons.prems(3) len have r: "0 < sum_list (map (\<lambda>s. maxCapacity s - currentCount s) (site_list w))"
    by simp
  obtain out w1 where d: "deployVolunteer w = Inr (out, w1)" and i1: "vq_inv (queue w1)" and l1: "queue_list (queue w1) = vs"
    and s1: "\<forall>s\<in>set (site_list w1). 0 \<le> currentCount s \<and> currentCount s \<le> maxCapacity s"
    and room: "sum_list (map (\<lambda>s. maxCapacity s - currentCount s) (site_list w1))
        = sum_list (map (\<lambda>s. maxCapacity s - currentCount s) (site_list w)) - 1"
    and cnt: "sum_list (map currentCount (site_list w1)) = sum_list (map currentCount (site_list w)) + 1"
    using deploy_room_step [OF Cons.prems(1) Cons.hyps(2) [symmetric] Cons.prems(2) r] by blast
  have "int (length (queue_list (queue w1))) \<le> sum_list (map (\<lambda>s. maxCapacity s - currentCount s) (site_list w1))"
    using Cons.prems(3) room l1 len by simp
  from Cons.hyps(1) [OF l1 [symmetric] i1 s1 this] obtain w' where
    "main_loop (Some 2) w1 (cin_of (session (replicate (length vs) Deploy_next))) = Some (Inr w')" "vq_inv (queue w')" "queue_list (queue w') = []"
    "sum_list (map currentCount (site_list w')) = sum_list (map currentCount (site_list w1)) + int (length vs)"
    using l1 by auto
  moreover have "main_loop x w (cin_of (session (replicate (Suc (length vs)) Deploy_next)))
      = main_loop (Some 2) w1 (cin_of (session (replicate (length vs) Deploy_next)))"
    using main_loop_deploy [OF d, of x "concat (replicate (length vs) [''2'', '''']) @ [''4'']"] by (simp add: session_def)
  ultimately show ?case using cnt len by simp
qed

theorem deploy_until_empty_witness:
  "vq_inv (queue \<lparr>queue = enqueue vq_init \<lparr>name = ''Ana'', contact = ''555'', skill = ''medic''\<rparr>, volunteers_file = None, ledger_file = Some [], sites_file = Some [''A 9 10'']\<rparr>)
   \<and> list_all (\<lambda>s. 0 \<le> currentCount s \<and> currentCount s \<le> maxCapacity s) (site_list \<lparr>queue = enqueue vq_init \<lparr>name = ''Ana'', contact = ''555'', skill = ''medic''\<rparr>, volunteers_file = None, ledger_file = Some [], sites_file = Some [''A 9 10'']\<rparr>)
   \<and> int (length (queue_list (queue \<lparr>queue = enqueue vq_init \<lparr>name = ''Ana'', contact = ''555'', skill = ''medic''\<rparr>, volunteers_file = None, ledger_file = Some [], sites_file = Some [''A 9 10'']\<rparr>))) \<le> sum_list (map (\<lambda>s. maxCapacity s - currentCount s) (site_list \<lparr>queue = enqueue vq_init \<lparr>name = ''Ana'', contact = ''555'', skill = ''medic''\<rparr>, volunteers_file = None, ledger_file = Some [], sites_file = Some [''A 9 10'']\<rparr>))
   \<and> (\<exists>w'. main_loop None \<lparr>queue = enqueue vq_init \<lparr>name = ''Ana'', contact = ''555'', skill = ''medic''\<rparr>, volunteers_file = None, ledger_file = Some [], sites_file = Some [''A 9 10'']\<rparr> (cin_of (session (replicate (length (queue_list (queue \<lparr>queue = enqueue vq_init \<lparr>name = ''Ana'', contact = ''555'', skill = ''medic''\<rparr>, volunteers_file = None, ledger_file = Some [], sites_file = Some [''A 9 10'']\<rparr>))) Deploy_next))) = Some (Inr w')
           \<and> vq_inv (queue w') \<and> queue_list (queue w') = []
           \<and> sum_list (map currentCount (site_list w'))
               = sum_list (map currentCount (site_list \<lparr>queue = enqueue vq_init \<lparr>name = ''Ana'', contact = ''555'', skill = ''medic''\<rparr>, volunteers_file = None, ledger_file = Some [], sites_file = Some [''A 9 10'']\<rparr>)) + int (length (queue_list (queue \<lparr>queue = enqueue vq_init \<lparr>name = ''Ana'', contact = ''555'', skill = ''medic''\<rparr>, volunteers_file = None, ledger_file = Some [], sites_file = Some [''A 9 10'']\<rparr>))))"
proof -
  have q: "vq_inv (queue \<lparr>queue = enqueue vq_init \<lparr>name = ''Ana'', contact = ''555'', skill = ''medic''\<rparr>, volunteers_file = None, ledger_file = Some [], sites_file = Some [''A 9 10'']\<rparr>)" using enqueue_inv_list [OF vq_inv_init, of "\<lparr>name = ''Ana'', contact = ''555'', skill = ''medic''\<rparr>"] by simp
  have s: "\<forall>s\<in>set (site_list \<lparr>queue = enqueue vq_init \<lparr>name = ''Ana'', contact = ''555'', skill = ''medic''\<rparr>, volunteers_file = None, ledger_file = Some [], sites_file = Some [''A 9 10'']\<rparr>). 0 \<le> currentCount s \<and> currentCount s \<le> maxCapacity s" by code_simp
  have r: "int (length (queue_list (queue \<lparr>queue = enqueue vq_init \<lparr>name = ''Ana'', contact = ''555'', skill = ''medic''\<rparr>, volunteers_file = None, ledger_file = Some [], sites_file = Some [''A 9 10'']\<rparr>))) \<le> sum_list (map (\<lambda>s. maxCapacity s - currentCount s) (site_list \<lparr>queue = enqueue vq_init \<lparr>name = ''Ana'', contact = ''555'', skill = ''medic''\<rparr>, volunteers_file = None, ledger_file = Some [], sites_file = Some [''A 9 10'']\<rparr>))"
    by code_simp
  show ?thesis using q s r deploy_until_empty [OF q s r, of None] by (simp add: list_all_iff)
qed






end
